theory Spec2Isabelle
  imports Main "HOL-Library.Word"
begin

unbundle bit_operations_syntax

section \<open>The configuration loader of pam-u2f (cfg.c)\<close>

text \<open>
  A shallow embedding of \<^verbatim>\<open>src/cfg.c\<close>. A C string is the list of its characters
  before the terminating NUL. The system calls, the allocator, the debug sink and the
  macros of \<^verbatim>\<open>cfg.h\<close> are parameters, collected in the record \<open>os\<close>. Every
  function that has an effect returns, next to its value, the list of the effects it had,
  in program order.
\<close>

subsection \<open>C strings: \<^verbatim>\<open>isspace\<close>, \<^verbatim>\<open>strtok_r\<close>, \<^verbatim>\<open>sscanf\<close>\<close>

text \<open>\<^verbatim>\<open>isspace\<close> in the C locale: space, and \<^verbatim>\<open>\t \n \v \f \r\<close>.\<close>

definition isspace :: "char \<Rightarrow> bool" where
  "isspace c = (c = CHR '' '' \<or> c = CHR 0x09 \<or> c = CHR 0x0A \<or> c = CHR 0x0B
     \<or> c = CHR 0x0C \<or> c = CHR 0x0D)"

definition isdigit :: "char \<Rightarrow> bool" where
  "isdigit c = (c = CHR ''0'' \<or> c = CHR ''1'' \<or> c = CHR ''2'' \<or> c = CHR ''3''
     \<or> c = CHR ''4'' \<or> c = CHR ''5'' \<or> c = CHR ''6'' \<or> c = CHR ''7''
     \<or> c = CHR ''8'' \<or> c = CHR ''9'')"

text \<open>The bytes of a buffer up to its first NUL: what the string functions see.\<close>

definition c_str :: "string \<Rightarrow> string" where
  "c_str buf = takeWhile (\<lambda>c. c \<noteq> CHR 0x00) buf"

text \<open>
  One call of \<^verbatim>\<open>strtok_r\<close> on the rest of the string: skip the delimiters, fail on
  the end of the string, else return the token and the rest after the delimiter that
  ended it.
\<close>

definition strtok_r :: "string \<Rightarrow> string \<Rightarrow> (string \<times> string) option" where
  "strtok_r delim s =
     (let s1 = dropWhile (\<lambda>c. c \<in> set delim) s in
      if s1 = [] then None
      else Some (takeWhile (\<lambda>c. c \<notin> set delim) s1,
                 drop 1 (dropWhile (\<lambda>c. c \<notin> set delim) s1)))"

text \<open>The tokens that successive calls of \<^verbatim>\<open>strtok_r\<close> return, until it returns NULL.\<close>

function strtok_all :: "string \<Rightarrow> string \<Rightarrow> string list" where
  "strtok_all delim s =
     (case strtok_r delim s of
        None \<Rightarrow> []
      | Some (tok, saveptr) \<Rightarrow> tok # strtok_all delim saveptr)"
  by pat_completeness auto
termination
proof (relation "measure (\<lambda>(delim, s). length s)")
  show "wf (measure (\<lambda>(delim, s). length s))" by simp
next
  fix delim s x tok saveptr
  assume a: "strtok_r delim s = Some x" "(tok, saveptr) = x"
  let ?s1 = "dropWhile (\<lambda>c. c \<in> set delim) s"
  from a have ne: "?s1 \<noteq> []" and sp: "saveptr = drop 1 (dropWhile (\<lambda>c. c \<notin> set delim) ?s1)"
    by (auto simp: strtok_r_def Let_def split: if_splits)
  have "length saveptr \<le> length ?s1 - 1"
    unfolding sp using length_dropWhile_le [of "\<lambda>c. c \<notin> set delim" ?s1] by simp
  moreover have "length ?s1 \<le> length s" by (rule length_dropWhile_le)
  moreover have "0 < length ?s1" using ne by simp
  ultimately have "length saveptr < length s" by arith
  then show "((delim, saveptr), (delim, s)) \<in> measure (\<lambda>(delim, s). length s)" by simp
qed

declare strtok_all.simps [simp del]

text \<open>
  The conversions \<^verbatim>\<open>%d\<close> and \<^verbatim>\<open>%u\<close> of \<^verbatim>\<open>sscanf\<close>: white space is skipped, then an
  optional sign and at least one decimal digit are read; what follows the digits is left
  unread. With no digit the conversion fails and nothing is assigned (\<open>None\<close>).
  The value is stored in a 32-bit object; a value out of its range, which the C standard
  leaves undefined, is reduced modulo \<open>2 ^ 32\<close> here.
\<close>

definition digit_val :: "char \<Rightarrow> nat" where
  "digit_val c = of_char c - of_char CHR ''0''"

definition dec_val :: "string \<Rightarrow> nat" where
  "dec_val ds = foldl (\<lambda>n c. 10 * n + digit_val c) 0 ds"

definition scan_int :: "string \<Rightarrow> int option" where
  "scan_int s =
     (let s1 = dropWhile isspace s;
          neg = (s1 \<noteq> [] \<and> hd s1 = CHR ''-'');
          s2 = (if s1 \<noteq> [] \<and> (hd s1 = CHR ''-'' \<or> hd s1 = CHR ''+'') then tl s1 else s1);
          ds = takeWhile isdigit s2
      in if ds = [] then None
         else Some (if neg then - int (dec_val ds) else int (dec_val ds)))"

type_synonym c_int = "32 word"
type_synonym c_uint = "32 word"

definition sscanf_d :: "string \<Rightarrow> c_int option" where
  "sscanf_d s = map_option word_of_int (scan_int s)"

definition sscanf_u :: "string \<Rightarrow> c_uint option" where
  "sscanf_u s = map_option word_of_int (scan_int s)"

subsection \<open>The line normalizer: \<^verbatim>\<open>ltrim\<close>, \<^verbatim>\<open>rtrim\<close>, \<^verbatim>\<open>pack\<close>\<close>

definition ltrim :: "string \<Rightarrow> string" where
  "ltrim s = dropWhile isspace s"

text \<open>\<^verbatim>\<open>rtrim\<close> cuts the string before its last character while that is white space.\<close>

function rtrim :: "string \<Rightarrow> string" where
  "rtrim s = (if s \<noteq> [] \<and> isspace (last s) then rtrim (butlast s) else s)"
  by pat_completeness auto
termination
  by (relation "measure length") auto

declare rtrim.simps [simp del]

text \<open>
  \<^verbatim>\<open>pack\<close>: the line is cut at the first \<^verbatim>\<open>#\<close> and left-trimmed. Without \<^verbatim>\<open>=\<close> it is
  right-trimmed and returned. Otherwise it is cut at the first \<^verbatim>\<open>=\<close>; the value is
  trimmed on both sides, the key on the right, and the two are joined by \<^verbatim>\<open>=\<close>.
\<close>

definition pack :: "string \<Rightarrow> string" where
  "pack line =
     (let s0 = takeWhile (\<lambda>c. c \<noteq> CHR ''#'') line;
          s = ltrim s0
      in if CHR ''='' \<notin> set s then rtrim s
         else let v0 = drop 1 (dropWhile (\<lambda>c. c \<noteq> CHR ''='') s);
                  k0 = takeWhile (\<lambda>c. c \<noteq> CHR ''='') s;
                  v = ltrim (rtrim v0);
                  k = rtrim k0
              in k @ ''='' @ v)"

text \<open>
  The normalizer as the specification words it: cut the comment, trim; a line without
  \<^verbatim>\<open>=\<close> is its trimmed text, and is skipped when that is empty; a line with \<^verbatim>\<open>=\<close> is
  split at the first one, both sides are trimmed, and joined again.
\<close>

definition trim :: "string \<Rightarrow> string" where
  "trim s = rev (dropWhile isspace (rev (dropWhile isspace s)))"

definition normalize_line :: "string \<Rightarrow> string option" where
  "normalize_line raw =
     (let t = trim (takeWhile (\<lambda>c. c \<noteq> CHR ''#'') raw) in
      if CHR ''='' \<in> set t
      then Some (trim (takeWhile (\<lambda>c. c \<noteq> CHR ''='') t) @ ''='' @
                 trim (drop 1 (dropWhile (\<lambda>c. c \<noteq> CHR ''='') t)))
      else if t = [] then None else Some t)"

text \<open>What \<^verbatim>\<open>cfg_load_buffer\<close> makes of one line: an empty result of \<^verbatim>\<open>pack\<close> is skipped.\<close>

definition line_token :: "string \<Rightarrow> string option" where
  "line_token line = (let arg = pack line in if arg = [] then None else Some arg)"

text \<open>\<^verbatim>\<open>strncmp(a, b, n) == 0\<close>: the first \<open>n\<close> characters of the two strings agree.\<close>

definition strncmp0 :: "string \<Rightarrow> string \<Rightarrow> nat \<Rightarrow> bool" where
  "strncmp0 a b n = (take n a = take n b)"

subsection \<open>The environment\<close>

datatype errno = ENOENT | ENOTDIR | ELOOP | EACCES | EMFILE | EFAULT

datatype oflag = O_RDONLY | O_CLOEXEC | O_DIRECTORY | O_NOFOLLOW | O_NOCTTY

datatype pam = PAM_SUCCESS | PAM_SERVICE_ERR | PAM_SYSTEM_ERR | PAM_BUF_ERR

text \<open>The fields of \<^verbatim>\<open>struct stat\<close> that the code reads.\<close>

record stat =
  st_uid :: nat
  st_mode :: "32 word"
  st_size :: nat

text \<open>The result of \<^verbatim>\<open>read\<close>: an error (negative), or the bytes read (none at end of file).\<close>

datatype read_result = ReadError | ReadBytes string

text \<open>A debug sink: the default one (\<^verbatim>\<open>DEFAULT_DEBUG_FILE\<close>) or a handle of \<^verbatim>\<open>debug_open\<close>.\<close>

datatype sink = DEFAULT_DEBUG_FILE | Handle nat

text \<open>
  What the code takes from outside \<^verbatim>\<open>cfg.c\<close>:
  \<^item> \<open>testing\<close>: whether \<^verbatim>\<open>PAM_U2F_TESTING\<close> is defined;
  \<^item> \<open>cfg_default_path\<close>, \<open>cfg_max_file_size\<close>: the macros \<^verbatim>\<open>CFG_DEFAULT_PATH\<close> and
    \<^verbatim>\<open>CFG_MAX_FILE_SIZE\<close> of \<^verbatim>\<open>cfg.h\<close>;
  \<^item> \<open>sys_strdup\<close>, \<open>sys_malloc\<close>: whether the allocation succeeds;
  \<^item> \<open>sys_open\<close>, \<open>sys_openat\<close>: the descriptor, or \<^verbatim>\<open>errno\<close> when the call returns -1;
  \<^item> \<open>sys_fstat\<close>: the metadata of a descriptor, \<open>None\<close> when \<^verbatim>\<open>fstat\<close> fails;
  \<^item> \<open>sys_read\<close>: \<^verbatim>\<open>read(fd, w, count)\<close> after \<open>off\<close> bytes have been read from \<open>fd\<close>;
  \<^item> \<open>debug_open\<close>: the sink that \<^verbatim>\<open>debug_open\<close> (of \<^verbatim>\<open>debug.c\<close>) returns for a path.
\<close>

record os =
  testing :: bool
  cfg_default_path :: string
  cfg_max_file_size :: nat
  sys_strdup :: "string \<Rightarrow> bool"
  sys_malloc :: "nat \<Rightarrow> bool"
  sys_open :: "string \<Rightarrow> oflag list \<Rightarrow> errno + nat"
  sys_openat :: "nat \<Rightarrow> string \<Rightarrow> oflag list \<Rightarrow> errno + nat"
  sys_fstat :: "nat \<Rightarrow> stat option"
  sys_read :: "nat \<Rightarrow> nat \<Rightarrow> nat \<Rightarrow> read_result"
  debug_open :: "string \<Rightarrow> sink"

text \<open>
  The effects: a resource is acquired (a descriptor opened, a buffer allocated, a sink
  opened by \<^verbatim>\<open>debug_open\<close>) or released (\<^verbatim>\<open>close\<close>, \<^verbatim>\<open>free\<close> of a pointer that is not
  NULL, \<^verbatim>\<open>debug_close\<close>); \<open>Dump\<close> stands for the \<^verbatim>\<open>debug_dbg\<close> calls at the end of
  \<^verbatim>\<open>cfg_init\<close>, all on one sink.
\<close>

datatype resource = RFd nat | RPathCopy | RFileBuffer | RSink sink

datatype event = Acquire resource | Release resource | Dump sink

text \<open>The file type and permission bits of \<^verbatim>\<open>st_mode\<close> (\<^verbatim>\<open>sys/stat.h\<close>, in octal there).\<close>

definition S_IFMT :: "32 word" where "S_IFMT = 0xF000"
definition S_IFDIR :: "32 word" where "S_IFDIR = 0x4000"
definition S_IFREG :: "32 word" where "S_IFREG = 0x8000"
definition S_IFLNK :: "32 word" where "S_IFLNK = 0xA000"
definition S_IWGRP :: "32 word" where "S_IWGRP = 0x10"
definition S_IWOTH :: "32 word" where "S_IWOTH = 0x02"

definition S_ISDIR :: "32 word \<Rightarrow> bool" where
  "S_ISDIR m = (m AND S_IFMT = S_IFDIR)"

definition S_ISREG :: "32 word \<Rightarrow> bool" where
  "S_ISREG m = (m AND S_IFMT = S_IFREG)"

definition S_ISLNK :: "32 word \<Rightarrow> bool" where
  "S_ISLNK m = (m AND S_IFMT = S_IFLNK)"

subsection \<open>The settings record\<close>

text \<open>
  \<^verbatim>\<open>cfg_t\<close>, with the fields that \<^verbatim>\<open>cfg.c\<close> uses. A string field is NULL (\<open>None\<close>) or
  points into an argument or into the file buffer; the model holds the string it points
  to. \<open>defaults_buffer\<close> is NULL or the buffer read from the file.
\<close>

record cfg =
  max_devs :: c_uint
  manual :: c_int
  debug :: c_int
  nouserok :: c_int
  openasuser :: c_int
  alwaysok :: c_int
  interactive :: c_int
  cue :: c_int
  nodetect :: c_int
  expand :: c_int
  userpresence :: c_int
  userverification :: c_int
  pinverification :: c_int
  auth_file :: "string option"
  sshformat :: c_int
  authpending_file :: "string option"
  origin :: "string option"
  appid :: "string option"
  prompt :: "string option"
  cue_prompt :: "string option"
  debug_file :: sink
  defaults_buffer :: "string option"

subsection \<open>\<^verbatim>\<open>cfg_load_arg_debug\<close> and \<^verbatim>\<open>cfg_load_arg\<close>\<close>

definition cfg_load_arg_debug :: "os \<Rightarrow> cfg \<Rightarrow> string \<Rightarrow> cfg \<times> event list" where
  "cfg_load_arg_debug os c arg =
     (if arg = ''debug'' then (c\<lparr>debug := 1\<rparr>, [])
      else if strncmp0 arg ''debug_file='' 11
      then (c\<lparr>debug_file := debug_open os (drop 11 arg)\<rparr>,
            [Release (RSink (debug_file c)), Acquire (RSink (debug_open os (drop 11 arg)))])
      else (c, []))"

definition cfg_load_arg :: "os \<Rightarrow> cfg \<Rightarrow> string \<Rightarrow> cfg \<times> event list" where
  "cfg_load_arg os c arg =
     (if strncmp0 arg ''max_devices='' 12
      then (case sscanf_u (drop 12 arg) of None \<Rightarrow> c | Some v \<Rightarrow> c\<lparr>max_devs := v\<rparr>, [])
      else if arg = ''manual'' then (c\<lparr>manual := 1\<rparr>, [])
      else if arg = ''nouserok'' then (c\<lparr>nouserok := 1\<rparr>, [])
      else if arg = ''openasuser'' then (c\<lparr>openasuser := 1\<rparr>, [])
      else if arg = ''alwaysok'' then (c\<lparr>alwaysok := 1\<rparr>, [])
      else if arg = ''interactive'' then (c\<lparr>interactive := 1\<rparr>, [])
      else if arg = ''cue'' then (c\<lparr>cue := 1\<rparr>, [])
      else if arg = ''nodetect'' then (c\<lparr>nodetect := 1\<rparr>, [])
      else if arg = ''expand'' then (c\<lparr>expand := 1\<rparr>, [])
      else if strncmp0 arg ''userpresence='' 13
      then (case sscanf_d (drop 13 arg) of None \<Rightarrow> c | Some v \<Rightarrow> c\<lparr>userpresence := v\<rparr>, [])
      else if strncmp0 arg ''userverification='' 17
      then (case sscanf_d (drop 17 arg) of None \<Rightarrow> c | Some v \<Rightarrow> c\<lparr>userverification := v\<rparr>, [])
      else if strncmp0 arg ''pinverification='' 16
      then (case sscanf_d (drop 16 arg) of None \<Rightarrow> c | Some v \<Rightarrow> c\<lparr>pinverification := v\<rparr>, [])
      else if strncmp0 arg ''authfile='' 9 then (c\<lparr>auth_file := Some (drop 9 arg)\<rparr>, [])
      else if arg = ''sshformat'' then (c\<lparr>sshformat := 1\<rparr>, [])
      else if strncmp0 arg ''authpending_file='' 17
      then (c\<lparr>authpending_file := Some (drop 17 arg)\<rparr>, [])
      else if strncmp0 arg ''origin='' 7 then (c\<lparr>origin := Some (drop 7 arg)\<rparr>, [])
      else if strncmp0 arg ''appid='' 6 then (c\<lparr>appid := Some (drop 6 arg)\<rparr>, [])
      else if strncmp0 arg ''prompt='' 7 then (c\<lparr>prompt := Some (drop 7 arg)\<rparr>, [])
      else if strncmp0 arg ''cue_prompt='' 11 then (c\<lparr>cue_prompt := Some (drop 11 arg)\<rparr>, [])
      else cfg_load_arg_debug os c arg)"

subsection \<open>\<^verbatim>\<open>slurp\<close>\<close>

text \<open>
  The read loop: \<open>w\<close> is what has been written to the buffer, \<open>to_read\<close> what is left to
  read. \<^verbatim>\<open>read\<close> returns at most \<open>to_read\<close> bytes.
\<close>

function slurp_loop :: "os \<Rightarrow> nat \<Rightarrow> nat \<Rightarrow> string \<Rightarrow> pam + string" where
  "slurp_loop os fd to_read w =
     (if to_read = 0 then Inr w
      else case sys_read os fd (length w) to_read of
             ReadError \<Rightarrow> Inl PAM_SYSTEM_ERR
           | ReadBytes bs \<Rightarrow>
               if take to_read bs = [] then Inr w
               else slurp_loop os fd (to_read - length (take to_read bs)) (w @ take to_read bs))"
  by pat_completeness auto
termination
  by (relation "measure (\<lambda>(os, fd, to_read, w). to_read)") auto

declare slurp_loop.simps [simp del]

definition slurp :: "os \<Rightarrow> nat \<Rightarrow> nat \<Rightarrow> (pam + string) \<times> event list" where
  "slurp os fd to_read =
     (if to_read > cfg_max_file_size os then (Inl PAM_SERVICE_ERR, [])
      else if \<not> sys_malloc os (to_read + 1) then (Inl PAM_BUF_ERR, [])
      else case slurp_loop os fd to_read [] of
             Inl r \<Rightarrow> (Inl r, [Acquire RFileBuffer, Release RFileBuffer])
           | Inr w \<Rightarrow> (Inr w, [Acquire RFileBuffer]))"

subsection \<open>\<^verbatim>\<open>open_safely\<close>\<close>

text \<open>
  The result of \<^verbatim>\<open>open_safely\<close>: an error code, or success with \<^verbatim>\<open>*outfd\<close> (\<open>None\<close>
  for -1) and \<^verbatim>\<open>*outsize\<close>.

  The last component: opened without following a symbolic link, then checked on the
  descriptor. Both functions end with the code after the label \<^verbatim>\<open>exit\<close>, which closes
  \<^verbatim>\<open>parent_fd\<close> and, unless it is -1, \<^verbatim>\<open>fd\<close>.
\<close>

definition open_leaf :: "os \<Rightarrow> nat \<Rightarrow> string \<Rightarrow> (pam + nat option \<times> nat) \<times> event list" where
  "open_leaf os parent_fd p =
     (case sys_openat os parent_fd p [O_RDONLY, O_CLOEXEC, O_NOCTTY, O_NOFOLLOW] of
        Inl e \<Rightarrow>
          (if e = ENOENT then Inr (None, 0) else Inl PAM_SERVICE_ERR, [Release (RFd parent_fd)])
      | Inr fd \<Rightarrow>
          (case sys_fstat os fd of
             None \<Rightarrow>
               (Inl PAM_SERVICE_ERR,
                [Acquire (RFd fd), Release (RFd parent_fd), Release (RFd fd)])
           | Some st \<Rightarrow>
               if \<not> testing os \<and> st_uid st \<noteq> 0
               then (Inl PAM_SERVICE_ERR,
                     [Acquire (RFd fd), Release (RFd parent_fd), Release (RFd fd)])
               else if \<not> S_ISREG (st_mode st) \<or> st_mode st AND (S_IWGRP OR S_IWOTH) \<noteq> 0
               then (Inl PAM_SERVICE_ERR,
                     [Acquire (RFd fd), Release (RFd parent_fd), Release (RFd fd)])
               else (Inr (Some fd, st_size st), [Acquire (RFd fd), Release (RFd parent_fd)])))"

text \<open>
  The loop over the components: \<open>p\<close> is the current component and the list holds the tokens
  that the next calls of \<^verbatim>\<open>strtok_r\<close> return. While there is a next token, \<open>p\<close> is opened as
  a directory under \<^verbatim>\<open>parent_fd\<close> and checked on the descriptor.
\<close>

fun walk :: "os \<Rightarrow> nat \<Rightarrow> string \<Rightarrow> string list \<Rightarrow> (pam + nat option \<times> nat) \<times> event list" where
  "walk os parent_fd p [] = open_leaf os parent_fd p"
| "walk os parent_fd p (c # cs) =
     (case sys_openat os parent_fd p [O_RDONLY, O_CLOEXEC, O_DIRECTORY] of
        Inl e \<Rightarrow>
          (if e = ENOENT then Inr (None, 0) else Inl PAM_SERVICE_ERR, [Release (RFd parent_fd)])
      | Inr fd \<Rightarrow>
          (case sys_fstat os fd of
             None \<Rightarrow>
               (Inl PAM_SERVICE_ERR,
                [Acquire (RFd fd), Release (RFd parent_fd), Release (RFd fd)])
           | Some st \<Rightarrow>
               if \<not> testing os \<and> st_uid st \<noteq> 0
               then (Inl PAM_SERVICE_ERR,
                     [Acquire (RFd fd), Release (RFd parent_fd), Release (RFd fd)])
               else if \<not> (S_ISDIR (st_mode st) \<or> S_ISLNK (st_mode st))
                       \<or> st_mode st AND (S_IWGRP OR S_IWOTH) \<noteq> 0
               then (Inl PAM_SERVICE_ERR,
                     [Acquire (RFd fd), Release (RFd parent_fd), Release (RFd fd)])
               else (case walk os fd c cs of
                       (r, tr) \<Rightarrow> (r, [Acquire (RFd fd), Release (RFd parent_fd)] @ tr))))"

text \<open>
  \<^verbatim>\<open>open_safely\<close>. A path that passes the first check has a component, so \<open>p\<close> is not
  NULL; were it NULL, \<^verbatim>\<open>openat\<close> would fail on it with \<^verbatim>\<open>EFAULT\<close>.
\<close>

definition open_safely :: "os \<Rightarrow> string \<Rightarrow> (pam + nat option \<times> nat) \<times> event list" where
  "open_safely os path =
     (if path = [] \<or> hd path \<noteq> CHR ''/'' \<or> last path = CHR ''/''
      then (Inl PAM_SERVICE_ERR, [])
      else if \<not> sys_strdup os path then (Inl PAM_BUF_ERR, [])
      else case sys_open os ''/'' [O_RDONLY, O_CLOEXEC, O_DIRECTORY, O_NOFOLLOW] of
             Inl e \<Rightarrow> (Inl PAM_SERVICE_ERR, [Acquire RPathCopy, Release RPathCopy])
           | Inr parent_fd \<Rightarrow>
               (case strtok_all ''/'' path of
                  [] \<Rightarrow>
                    (Inl PAM_SERVICE_ERR,
                     [Acquire RPathCopy, Acquire (RFd parent_fd), Release (RFd parent_fd),
                      Release RPathCopy])
                | p # cs \<Rightarrow>
                    (case walk os parent_fd p cs of
                       (r, tr) \<Rightarrow>
                         (r, [Acquire RPathCopy, Acquire (RFd parent_fd)] @ tr
                               @ [Release RPathCopy]))))"

subsection \<open>\<^verbatim>\<open>cfg_load_buffer\<close> and \<^verbatim>\<open>cfg_load_defaults\<close>\<close>

text \<open>The loop of \<^verbatim>\<open>cfg_load_buffer\<close> over the lines of the buffer.\<close>

fun cfg_load_lines :: "os \<Rightarrow> cfg \<Rightarrow> string list \<Rightarrow> cfg \<times> event list" where
  "cfg_load_lines os c [] = (c, [])"
| "cfg_load_lines os c (buf # lines) =
     (case line_token buf of
        None \<Rightarrow> cfg_load_lines os c lines
      | Some arg \<Rightarrow>
          (case cfg_load_arg os c arg of
             (c1, t1) \<Rightarrow>
               (case cfg_load_lines os c1 lines of (c2, t2) \<Rightarrow> (c2, t1 @ t2))))"

definition cfg_load_buffer :: "os \<Rightarrow> cfg \<Rightarrow> string \<Rightarrow> cfg \<times> event list" where
  "cfg_load_buffer os c buffer = cfg_load_lines os c (strtok_all [CHR 0x0A] (c_str buffer))"

definition cfg_load_defaults ::
  "os \<Rightarrow> cfg \<Rightarrow> string option \<Rightarrow> (pam \<times> cfg) \<times> event list" where
  "cfg_load_defaults os c config_path =
     (case open_safely os (case config_path of Some p \<Rightarrow> p | None \<Rightarrow> cfg_default_path os) of
        (Inl r, tr) \<Rightarrow> ((r, c), tr)
      | (Inr (None, fsize), tr) \<Rightarrow>
          ((if config_path \<noteq> None then PAM_SERVICE_ERR else PAM_SUCCESS, c), tr)
      | (Inr (Some fd, fsize), tr) \<Rightarrow>
          if fsize = 0 then ((PAM_SUCCESS, c), tr @ [Release (RFd fd)])
          else (case slurp os fd fsize of
                  (Inl r, tr2) \<Rightarrow> ((r, c), tr @ tr2 @ [Release (RFd fd)])
                | (Inr buffer, tr2) \<Rightarrow>
                    (case cfg_load_buffer os c buffer of
                       (c1, tr3) \<Rightarrow>
                         ((PAM_SUCCESS, c1\<lparr>defaults_buffer := Some buffer\<rparr>),
                          tr @ tr2 @ tr3 @ [Release (RFd fd)]))))"

subsection \<open>\<^verbatim>\<open>cfg_reset\<close>, \<^verbatim>\<open>cfg_free\<close> and \<^verbatim>\<open>cfg_init\<close>\<close>

definition cfg_reset :: "cfg \<Rightarrow> cfg" where
  "cfg_reset c =
     \<lparr>max_devs = 0, manual = 0, debug = 0, nouserok = 0, openasuser = 0, alwaysok = 0,
      interactive = 0, cue = 0, nodetect = 0, expand = 0,
      userpresence = - 1, userverification = - 1, pinverification = - 1,
      auth_file = None, sshformat = 0, authpending_file = None, origin = None,
      appid = None, prompt = None, cue_prompt = None,
      debug_file = DEFAULT_DEBUG_FILE, defaults_buffer = None\<rparr>"

definition cfg_free :: "os \<Rightarrow> cfg \<Rightarrow> cfg \<times> event list" where
  "cfg_free os c =
     (cfg_reset c,
      Release (RSink (debug_file c))
        # (case defaults_buffer c of None \<Rightarrow> [] | Some b \<Rightarrow> [Release RFileBuffer]))"

text \<open>The first loop of \<^verbatim>\<open>cfg_init\<close>: the path of \<^verbatim>\<open>conf=\<close>, and the debug settings.\<close>

fun early_scan ::
  "os \<Rightarrow> cfg \<Rightarrow> string option \<Rightarrow> string list \<Rightarrow> (cfg \<times> string option) \<times> event list" where
  "early_scan os c config_path [] = ((c, config_path), [])"
| "early_scan os c config_path (a # as) =
     (if strncmp0 a ''conf='' 5 then early_scan os c (Some (drop 5 a)) as
      else case cfg_load_arg_debug os c a of
             (c1, t1) \<Rightarrow>
               (case early_scan os c1 config_path as of (r, t2) \<Rightarrow> (r, t1 @ t2)))"

text \<open>The second loop of \<^verbatim>\<open>cfg_init\<close>: every argument but \<^verbatim>\<open>conf=\<close>.\<close>

fun full_scan :: "os \<Rightarrow> cfg \<Rightarrow> string list \<Rightarrow> cfg \<times> event list" where
  "full_scan os c [] = (c, [])"
| "full_scan os c (a # as) =
     (if strncmp0 a ''conf='' 5 then full_scan os c as
      else case cfg_load_arg os c a of
             (c1, t1) \<Rightarrow> (case full_scan os c1 as of (c2, t2) \<Rightarrow> (c2, t1 @ t2)))"

text \<open>
  \<^verbatim>\<open>cfg_init\<close>, on the record \<open>c0\<close> that the caller passes and the arguments \<^verbatim>\<open>argv\<close>
  (\<^verbatim>\<open>flags\<close> is only printed). It returns the code, the record as it leaves it, and the
  effects.
\<close>

definition cfg_init :: "os \<Rightarrow> cfg \<Rightarrow> string list \<Rightarrow> (pam \<times> cfg) \<times> event list" where
  "cfg_init os c0 argv =
     (case early_scan os (cfg_reset c0) None argv of
        ((c1, config_path), t1) \<Rightarrow>
          (case cfg_load_defaults os c1 config_path of
             ((r, c2), t2) \<Rightarrow>
               (case (if r \<noteq> PAM_SUCCESS then (c2, []) else full_scan os c2 argv) of
                  (c3, t3) \<Rightarrow>
                    (let t4 = (if debug c3 \<noteq> 0 then [Dump (debug_file c3)] else []) in
                     if r \<noteq> PAM_SUCCESS
                     then (case cfg_free os c3 of
                             (c4, t5) \<Rightarrow> ((r, c4), t1 @ t2 @ t3 @ t4 @ t5))
                     else ((r, c3), t1 @ t2 @ t3 @ t4)))))"

section \<open>The settings table of the specification\<close>

text \<open>
  The tokens that the specification lists as recognized: the bare flags, and the keys of
  the key=value settings. A token is recognized when it is one of the flags or starts
  with one of the keys.
\<close>

definition flag_tokens :: "string list" where
  "flag_tokens = [''debug'', ''manual'', ''nouserok'', ''openasuser'', ''alwaysok'',
     ''interactive'', ''cue'', ''nodetect'', ''expand'', ''sshformat'']"

definition value_keys :: "string list" where
  "value_keys = [''debug_file='', ''max_devices='', ''userpresence='', ''userverification='',
     ''pinverification='', ''authfile='', ''authpending_file='', ''origin='', ''appid='',
     ''prompt='', ''cue_prompt='']"

definition recognized :: "string \<Rightarrow> bool" where
  "recognized tok =
     (tok \<in> set flag_tokens \<or> list_ex (\<lambda>k. take (length k) tok = k) value_keys)"

text \<open>
  What one token assigns: the text after the key, for a token that starts with the key;
  the number that text parses to; the value 1, for a token that is the flag.
\<close>

definition arg_value :: "string \<Rightarrow> string \<Rightarrow> string option" where
  "arg_value key a = (if take (length key) a = key then Some (drop (length key) a) else None)"

definition arg_flag :: "string \<Rightarrow> string \<Rightarrow> c_int option" where
  "arg_flag name a = (if a = name then Some 1 else None)"

definition arg_uint :: "string \<Rightarrow> string \<Rightarrow> c_uint option" where
  "arg_uint key a = Option.bind (arg_value key a) sscanf_u"

definition arg_int :: "string \<Rightarrow> string \<Rightarrow> c_int option" where
  "arg_int key a = Option.bind (arg_value key a) sscanf_d"

text \<open>The value that the last assigning token of a list assigns, if any does.\<close>

fun last_assigned :: "(string \<Rightarrow> 'a option) \<Rightarrow> string list \<Rightarrow> 'a option" where
  "last_assigned g [] = None"
| "last_assigned g (a # as) =
     (case last_assigned g as of Some v \<Rightarrow> Some v | None \<Rightarrow> g a)"

definition pick :: "'a option \<Rightarrow> 'a \<Rightarrow> 'a" where
  "pick new old = (case new of Some v \<Rightarrow> v | None \<Rightarrow> old)"

text \<open>
  The record after a list of tokens, as the table of the specification gives it: every
  field holds what the last token that assigns it gives, and its old value when no token
  assigns it.
\<close>

definition merge_tokens :: "os \<Rightarrow> string list \<Rightarrow> cfg \<Rightarrow> cfg" where
  "merge_tokens os toks c =
     \<lparr>max_devs = pick (last_assigned (arg_uint ''max_devices='') toks) (max_devs c),
      manual = pick (last_assigned (arg_flag ''manual'') toks) (manual c),
      debug = pick (last_assigned (arg_flag ''debug'') toks) (debug c),
      nouserok = pick (last_assigned (arg_flag ''nouserok'') toks) (nouserok c),
      openasuser = pick (last_assigned (arg_flag ''openasuser'') toks) (openasuser c),
      alwaysok = pick (last_assigned (arg_flag ''alwaysok'') toks) (alwaysok c),
      interactive = pick (last_assigned (arg_flag ''interactive'') toks) (interactive c),
      cue = pick (last_assigned (arg_flag ''cue'') toks) (cue c),
      nodetect = pick (last_assigned (arg_flag ''nodetect'') toks) (nodetect c),
      expand = pick (last_assigned (arg_flag ''expand'') toks) (expand c),
      userpresence = pick (last_assigned (arg_int ''userpresence='') toks) (userpresence c),
      userverification =
        pick (last_assigned (arg_int ''userverification='') toks) (userverification c),
      pinverification =
        pick (last_assigned (arg_int ''pinverification='') toks) (pinverification c),
      auth_file =
        pick (map_option Some (last_assigned (arg_value ''authfile='') toks)) (auth_file c),
      sshformat = pick (last_assigned (arg_flag ''sshformat'') toks) (sshformat c),
      authpending_file =
        pick (map_option Some (last_assigned (arg_value ''authpending_file='') toks))
          (authpending_file c),
      origin = pick (map_option Some (last_assigned (arg_value ''origin='') toks)) (origin c),
      appid = pick (map_option Some (last_assigned (arg_value ''appid='') toks)) (appid c),
      prompt = pick (map_option Some (last_assigned (arg_value ''prompt='') toks)) (prompt c),
      cue_prompt =
        pick (map_option Some (last_assigned (arg_value ''cue_prompt='') toks)) (cue_prompt c),
      debug_file =
        pick (map_option (debug_open os) (last_assigned (arg_value ''debug_file='') toks))
          (debug_file c),
      defaults_buffer = defaults_buffer c\<rparr>"

text \<open>
  \<^verbatim>\<open>cfg_load_arg\<close> on a list of tokens, in order; the two loops that call it
  (\<open>cfg_load_lines\<close>, \<open>full_scan\<close>) are compared with it below.
\<close>

fun apply_tokens :: "os \<Rightarrow> cfg \<Rightarrow> string list \<Rightarrow> cfg \<times> event list" where
  "apply_tokens os c [] = (c, [])"
| "apply_tokens os c (a # as) =
     (case cfg_load_arg os c a of
        (c1, t1) \<Rightarrow> (case apply_tokens os c1 as of (c2, t2) \<Rightarrow> (c2, t1 @ t2)))"

text \<open>The tokens of a file buffer: its lines, normalized, without the skipped ones.\<close>

definition file_tokens :: "string \<Rightarrow> string list" where
  "file_tokens buffer = List.map_filter line_token (strtok_all [CHR 0x0A] (c_str buffer))"

section \<open>Resources held along a list of effects\<close>

text \<open>
  How often the resource \<open>r\<close> is held after the effects, when it is held \<open>n\<close> times
  before them. The result is \<open>None\<close> when the effects release \<open>r\<close> while it is not held
  (a descriptor closed twice, a buffer freed twice); only \<^verbatim>\<open>debug_close\<close> on the default
  sink, which was never opened, counts as harmless.
\<close>

fun held :: "resource \<Rightarrow> event list \<Rightarrow> nat \<Rightarrow> nat option" where
  "held r [] n = Some n"
| "held r (e # es) n =
     (if e = Acquire r then held r es (Suc n)
      else if e = Release r
           then (if n = 0
                 then (if r = RSink DEFAULT_DEBUG_FILE then held r es 0 else None)
                 else held r es (n - 1))
      else held r es n)"

text \<open>
  What a record accounts for: the sink it holds is held once (the default sink perhaps not
  at all), no other sink is held, the file buffer is held when the record has one, and
  nothing else is held.
\<close>

definition accounts_for :: "cfg \<Rightarrow> resource \<Rightarrow> nat \<Rightarrow> bool" where
  "accounts_for c r n =
     (case r of
        RSink s \<Rightarrow>
          if s = debug_file c then n = 1 \<or> (n = 0 \<and> s = DEFAULT_DEBUG_FILE) else n = 0
      | RFileBuffer \<Rightarrow> n = (if defaults_buffer c = None then 0 else 1)
      | RFd fd \<Rightarrow> n = 0
      | RPathCopy \<Rightarrow> n = 0)"

text \<open>Whether a result of \<open>open_safely\<close> hands the descriptor \<open>r\<close> to the caller.\<close>

definition returns_fd :: "(pam + nat option \<times> nat) \<Rightarrow> resource \<Rightarrow> bool" where
  "returns_fd res r = (case res of Inr (Some fd, sz) \<Rightarrow> r = RFd fd | _ \<Rightarrow> False)"

subsection \<open>Counting the openings of the sink\<close>

text \<open>
  How many times the effects open a sink with \<^verbatim>\<open>debug_open\<close>, and how many tokens of a
  list are \<^verbatim>\<open>debug_file=\<close> tokens.
\<close>

definition sink_opens :: "event list \<Rightarrow> nat" where
  "sink_opens tr = length (filter (\<lambda>e. case e of Acquire (RSink s) \<Rightarrow> True | _ \<Rightarrow> False) tr)"

definition debug_file_tokens :: "string list \<Rightarrow> nat" where
  "debug_file_tokens toks = length (filter (\<lambda>a. strncmp0 a ''debug_file='' 11) toks)"

section \<open>The trust predicate of the specification\<close>

text \<open>
  The directory that a list of components names below the directory \<open>d\<close>: each component
  is opened as \<^verbatim>\<open>open_safely\<close> opens an intermediate one, and nothing is checked.
\<close>

fun lookup :: "os \<Rightarrow> nat \<Rightarrow> string list \<Rightarrow> errno + nat" where
  "lookup os d [] = Inr d"
| "lookup os d (n # ns) =
     (case sys_openat os d n [O_RDONLY, O_CLOEXEC, O_DIRECTORY] of
        Inl e \<Rightarrow> Inl e
      | Inr fd \<Rightarrow> lookup os fd ns)"

definition group_or_other_writable :: "stat \<Rightarrow> bool" where
  "group_or_other_writable st = (st_mode st AND (S_IWGRP OR S_IWOTH) \<noteq> 0)"

text \<open>
  The trust predicate: owned by root (not required in a test build), not writable by
  group or others, and a directory (or symbolic link) for an intermediate component, a
  regular file for the last one.
\<close>

definition trusted_dir :: "os \<Rightarrow> stat \<Rightarrow> bool" where
  "trusted_dir os st =
     ((testing os \<or> st_uid st = 0) \<and> (S_ISDIR (st_mode st) \<or> S_ISLNK (st_mode st))
      \<and> \<not> group_or_other_writable st)"

definition trusted_file :: "os \<Rightarrow> stat \<Rightarrow> bool" where
  "trusted_file os st =
     ((testing os \<or> st_uid st = 0) \<and> S_ISREG (st_mode st) \<and> \<not> group_or_other_writable st)"

section \<open>The invariant of the tri-state fields\<close>

text \<open>
  The tri-state fields: a value counts as explicitly assigned by a list of tokens when one
  of them has the field's key and a value that parses to it. The invariant on a record,
  for the tokens applied to it so far: each tri-state field is -1 or explicitly assigned.
\<close>

definition explicitly_assigned :: "string \<Rightarrow> string list \<Rightarrow> c_int \<Rightarrow> bool" where
  "explicitly_assigned key toks v = list_ex (\<lambda>t. arg_int key t = Some v) toks"

definition tri_state_ok :: "string list \<Rightarrow> cfg \<Rightarrow> bool" where
  "tri_state_ok toks c =
     ((userpresence c = - 1 \<or> explicitly_assigned ''userpresence='' toks (userpresence c))
      \<and> (userverification c = - 1
           \<or> explicitly_assigned ''userverification='' toks (userverification c))
      \<and> (pinverification c = - 1
           \<or> explicitly_assigned ''pinverification='' toks (pinverification c)))"

text \<open>The tokens of the file buffer that a record holds, none when it holds no buffer.\<close>

definition buffer_tokens :: "string option \<Rightarrow> string list" where
  "buffer_tokens b = (case b of None \<Rightarrow> [] | Some buffer \<Rightarrow> file_tokens buffer)"

section \<open>The file phase of \<^verbatim>\<open>cfg_init\<close>\<close>

text \<open>The record as the file phase of \<^verbatim>\<open>cfg_init\<close> leaves it, before the second loop.\<close>

definition after_file :: "os \<Rightarrow> cfg \<Rightarrow> string list \<Rightarrow> cfg" where
  "after_file os c0 argv =
     (case early_scan os (cfg_reset c0) None argv of
        ((c1, config_path), t1) \<Rightarrow> snd (fst (cfg_load_defaults os c1 config_path)))"

section \<open>An example environment\<close>

text \<open>
  A file system with the directories \<^verbatim>\<open>/\<close> (descriptor 3) and \<^verbatim>\<open>/etc\<close> (descriptor 4)
  and, when \<open>content\<close> is given, the regular file \<^verbatim>\<open>/etc/u2f.conf\<close> (descriptor 5,
  mode 0644) with that content; everything is owned by root, and the modes of the two
  directories are parameters. \<^verbatim>\<open>/etc/u2f.conf\<close> is also the default path.
\<close>

definition os_example :: "32 word \<Rightarrow> 32 word \<Rightarrow> string option \<Rightarrow> os" where
  "os_example root_mode etc_mode content =
     \<lparr>testing = False,
      cfg_default_path = ''/etc/u2f.conf'',
      cfg_max_file_size = 4096,
      sys_strdup = (\<lambda>s. True),
      sys_malloc = (\<lambda>n. True),
      sys_open = (\<lambda>path flags. if path = ''/'' then Inr 3 else Inl ENOENT),
      sys_openat = (\<lambda>fd name flags.
        if fd = 3 \<and> name = ''etc'' then Inr 4
        else if fd = 4 \<and> name = ''u2f.conf'' \<and> content \<noteq> None
             then (if O_DIRECTORY \<in> set flags then Inl ENOTDIR else Inr 5)
        else Inl ENOENT),
      sys_fstat = (\<lambda>fd.
        if fd = 3 then Some \<lparr>st_uid = 0, st_mode = root_mode, st_size = 4096\<rparr>
        else if fd = 4 then Some \<lparr>st_uid = 0, st_mode = etc_mode, st_size = 4096\<rparr>
        else if fd = 5
             then Some \<lparr>st_uid = 0, st_mode = 0x81A4,
                        st_size = (case content of None \<Rightarrow> 0 | Some bs \<Rightarrow> length bs)\<rparr>
        else None),
      sys_read = (\<lambda>fd off count.
        case content of
          None \<Rightarrow> ReadError
        | Some bs \<Rightarrow> if fd = 5 then ReadBytes (take count (drop off bs)) else ReadError),
      debug_open = (\<lambda>path. Handle (length path))\<rparr>"

text \<open>A record as a caller may pass it to \<^verbatim>\<open>cfg_init\<close>: left over from an earlier load.\<close>

definition cfg_stale :: cfg where
  "cfg_stale =
     \<lparr>max_devs = 7, manual = 1, debug = 0, nouserok = 0, openasuser = 0, alwaysok = 1,
      interactive = 0, cue = 0, nodetect = 0, expand = 0,
      userpresence = 1, userverification = 0, pinverification = - 1,
      auth_file = Some ''/etc/u2f_mappings'', sshformat = 0, authpending_file = None,
      origin = None, appid = None, prompt = None, cue_prompt = None,
      debug_file = Handle 9, defaults_buffer = Some ''manual''\<rparr>"

section \<open>Properties\<close>

lemma rtrim_rev: "rtrim s = rev (dropWhile isspace (rev s))"
proof (induction s rule: rtrim.induct)
  case (1 s)
  show ?case
  proof (cases "s \<noteq> [] \<and> isspace (last s)")
    case True
    then obtain ys y where s: "s = ys @ [y]" and y: "isspace y"
      by (metis append_butlast_last_id)
    have "rtrim s = rtrim ys" using True s by (subst rtrim.simps) simp
    also have "\<dots> = rev (dropWhile isspace (rev ys))" using 1 True s by simp
    finally show ?thesis using s y by simp
  next
    case False
    have r: "rtrim s = s" by (subst rtrim.simps) (use False in presburger)
    show ?thesis
    proof (cases s rule: rev_cases)
      case Nil
      then show ?thesis using r by simp
    next
      case (snoc ys y)
      then show ?thesis using r False by simp
    qed
  qed
qed


lemma rtrim_fix: "s = [] \<or> \<not> isspace (last s) \<Longrightarrow> rtrim s = s"
  by (subst rtrim.simps) auto

lemma rtrim_end: "rtrim s = [] \<or> \<not> isspace (last (rtrim s))"
proof (induction s rule: rtrim.induct)
  case (1 s)
  show ?case
  proof (cases "s \<noteq> [] \<and> isspace (last s)")
    case True
    then have "rtrim s = rtrim (butlast s)" by (subst rtrim.simps) simp
    then show ?thesis using 1 True by simp
  next
    case False
    then have "rtrim s = s" using rtrim_fix by blast
    then show ?thesis using False by auto
  qed
qed

lemma last_dropWhile_ne: "dropWhile P z \<noteq> [] \<Longrightarrow> last (dropWhile P z) = last z"
  by (induction z) auto

lemma rtrim_ltrim_rtrim: "rtrim (ltrim (rtrim b)) = ltrim (rtrim b)"
proof (cases "ltrim (rtrim b) = []")
  case True
  then show ?thesis by (simp add: rtrim_fix)
next
  case False
  then have "last (ltrim (rtrim b)) = last (rtrim b)" "rtrim b \<noteq> []"
    by (auto simp: ltrim_def last_dropWhile_ne)
  then show ?thesis using rtrim_end [of b] by (intro rtrim_fix) simp
qed

lemma trim_eq: "trim s = rtrim (ltrim s)"
  by (simp add: trim_def ltrim_def rtrim_rev)

lemma rtrim_nonspace: "\<not> isspace c \<Longrightarrow> rtrim (x @ c # y) = x @ c # rtrim y"
  by (simp add: rtrim_rev dropWhile_append)

lemma rtrim_set: "\<not> isspace c \<Longrightarrow> c \<in> set (rtrim s) \<longleftrightarrow> c \<in> set s"
proof (induction s rule: rtrim.induct)
  case (1 s)
  show ?case
  proof (cases "s \<noteq> [] \<and> isspace (last s)")
    case True
    then have r: "rtrim s = rtrim (butlast s)" by (subst rtrim.simps) simp
    from True obtain ys y where s: "s = ys @ [y]" "isspace y" by (metis append_butlast_last_id)
    show ?thesis using 1 True r s by auto
  next
    case False
    then have "rtrim s = s" using rtrim_fix by blast
    then show ?thesis by simp
  qed
qed

lemma eq_nonspace: "\<not> isspace (CHR ''='')" by (simp add: isspace_def)

lemma ltrim_prefix_fix: "ltrim s = s \<Longrightarrow> ltrim (takeWhile P s) = takeWhile P s"
proof (cases s)
  case Nil
  then show ?thesis by (simp add: ltrim_def)
next
  case (Cons a list)
  assume l: "ltrim s = s"
  have "\<not> isspace a"
  proof
    assume "isspace a"
    then have "dropWhile isspace list = a # list" using l Cons by (simp add: ltrim_def)
    then have "length (a # list) \<le> length list" using length_dropWhile_le [of isspace list] by simp
    then show False by simp
  qed
  then show ?thesis using Cons by (simp add: ltrim_def)
qed

lemma ltrim_idem: "ltrim (ltrim s) = ltrim s"
  by (simp add: ltrim_def)

lemma pack_normalize: "pack line = (case normalize_line line of None \<Rightarrow> [] | Some t \<Rightarrow> t)"
proof -
  define s where "s = ltrim (takeWhile (\<lambda>c. c \<noteq> CHR ''#'') line)"
  have t: "trim (takeWhile (\<lambda>c. c \<noteq> CHR ''#'') line) = rtrim s"
    by (simp add: trim_eq s_def)
  have ls: "ltrim s = s" by (simp add: s_def ltrim_idem)
  show ?thesis
  proof (cases "CHR ''='' \<in> set s")
    case False
    then have "CHR ''='' \<notin> set (rtrim s)" by (simp add: rtrim_set eq_nonspace)
    then show ?thesis using False
      by (simp add: pack_def normalize_line_def Let_def t s_def [symmetric])
  next
    case True
    then obtain a b where ab: "s = a @ CHR ''='' # b" "CHR ''='' \<notin> set a"
      by (meson split_list_first)
    have rs: "rtrim s = a @ CHR ''='' # rtrim b" by (simp add: ab rtrim_nonspace eq_nonspace)
    have tw: "takeWhile (\<lambda>c. c \<noteq> CHR ''='') (a @ CHR ''='' # z) = a" for z
      using ab(2) by (simp add: takeWhile_append)
    have dw: "dropWhile (\<lambda>c. c \<noteq> CHR ''='') (a @ CHR ''='' # z) = CHR ''='' # z" for z
      using ab(2) by (simp add: dropWhile_append)
    have la: "ltrim a = a" using ltrim_prefix_fix [OF ls, of "\<lambda>c. c \<noteq> CHR ''=''"] by (simp add: ab(1) tw)
    have "pack line = rtrim a @ ''='' @ ltrim (rtrim b)"
      using True by (simp add: pack_def Let_def s_def [symmetric]) (simp add: ab(1) tw dw)
    moreover have "normalize_line line = Some (rtrim a @ ''='' @ ltrim (rtrim b))"
      unfolding normalize_line_def Let_def t rs
      by (simp add: tw dw trim_eq la rtrim_ltrim_rtrim)
    ultimately show ?thesis by simp
  qed
qed

subsection \<open>The line normalizer\<close>

text \<open>
  Claim C6. The normalizer of the code (\<open>pack\<close>, and the skip of an empty result in
  \<open>cfg_load_buffer\<close>) is the normalizer of the specification: the comment is cut at the
  first \<^verbatim>\<open>#\<close>, the rest is trimmed, and a line with \<^verbatim>\<open>=\<close> is split at the first one,
  both sides trimmed, and joined as key=value. The three lines of the specification
  normalize to \<^verbatim>\<open>foo=bar\<close>, to \<^verbatim>\<open>baz\<close>, and to a skip.
\<close>

theorem pack_is_normalize:
  "line_token raw = normalize_line raw
   \<and> pack raw = (case normalize_line raw of None \<Rightarrow> [] | Some t \<Rightarrow> t)
   \<and> line_token ''  foo  =  bar  # note'' = Some ''foo=bar''
   \<and> line_token ''baz'' = Some ''baz''
   \<and> line_token ''# only a comment'' = None"
proof -
  have a: "pack raw = (case normalize_line raw of None \<Rightarrow> [] | Some t \<Rightarrow> t)"
    by (rule pack_normalize)
  have ne: "normalize_line raw = Some t \<Longrightarrow> t \<noteq> []" for t
    by (auto simp: normalize_line_def Let_def split: if_splits)
  have b: "line_token raw = normalize_line raw"
    using ne by (cases "normalize_line raw") (auto simp: line_token_def Let_def a)
  have c: "line_token ''  foo  =  bar  # note'' = Some ''foo=bar''"
    by (simp add: line_token_def pack_def Let_def ltrim_def rtrim_rev isspace_def)
  have d: "line_token ''baz'' = Some ''baz''"
    by (simp add: line_token_def pack_def Let_def ltrim_def rtrim_rev isspace_def)
  have e: "line_token ''# only a comment'' = None"
    by (simp add: line_token_def pack_def Let_def ltrim_def rtrim_rev isspace_def)
  show ?thesis using a b c d e by blast
qed

theorem pack_is_normalize_witness:
  "line_token '' origin = pam://host '' = Some ''origin=pam://host''
   \<and> normalize_line '' origin = pam://host '' = Some ''origin=pam://host''"
proof -
  have "normalize_line '' origin = pam://host '' = Some ''origin=pam://host''"
    by (simp add: normalize_line_def trim_def Let_def isspace_def)
  then show ?thesis using pack_is_normalize [of "'' origin = pam://host ''"] by simp
qed

subsection \<open>One token: the branches of \<^verbatim>\<open>cfg_load_arg\<close>\<close>

lemma cfg_load_arg_unrecognized:
  assumes "\<not> recognized tok"
  shows "cfg_load_arg os c tok = (c, [])"
proof -
  have n: "\<not> strncmp0 tok ''max_devices='' 12" "tok \<noteq> ''manual''" "tok \<noteq> ''nouserok''"
    "tok \<noteq> ''openasuser''" "tok \<noteq> ''alwaysok''" "tok \<noteq> ''interactive''" "tok \<noteq> ''cue''"
    "tok \<noteq> ''nodetect''" "tok \<noteq> ''expand''" "\<not> strncmp0 tok ''userpresence='' 13"
    "\<not> strncmp0 tok ''userverification='' 17" "\<not> strncmp0 tok ''pinverification='' 16"
    "\<not> strncmp0 tok ''authfile='' 9" "tok \<noteq> ''sshformat''"
    "\<not> strncmp0 tok ''authpending_file='' 17" "\<not> strncmp0 tok ''origin='' 7"
    "\<not> strncmp0 tok ''appid='' 6" "\<not> strncmp0 tok ''prompt='' 7"
    "\<not> strncmp0 tok ''cue_prompt='' 11" "tok \<noteq> ''debug''"
    "\<not> strncmp0 tok ''debug_file='' 11"
    using assms
    by (simp_all add: recognized_def flag_tokens_def value_keys_def strncmp0_def
        eval_nat_numeral)
  show ?thesis unfolding cfg_load_arg_def cfg_load_arg_debug_def by (simp only: n if_False)
qed

lemma prefixD: "take n a = k \<Longrightarrow> a = k @ drop n a"
  by (metis append_take_drop_id)

lemma cfg_load_arg_manual: "cfg_load_arg os c ''manual'' = (c\<lparr>manual := 1\<rparr>, [])"
  by (simp add: cfg_load_arg_def strncmp0_def)

lemma cfg_load_arg_nouserok: "cfg_load_arg os c ''nouserok'' = (c\<lparr>nouserok := 1\<rparr>, [])"
  by (simp add: cfg_load_arg_def strncmp0_def)

lemma cfg_load_arg_openasuser: "cfg_load_arg os c ''openasuser'' = (c\<lparr>openasuser := 1\<rparr>, [])"
  by (simp add: cfg_load_arg_def strncmp0_def)

lemma cfg_load_arg_alwaysok: "cfg_load_arg os c ''alwaysok'' = (c\<lparr>alwaysok := 1\<rparr>, [])"
  by (simp add: cfg_load_arg_def strncmp0_def)

lemma cfg_load_arg_interactive: "cfg_load_arg os c ''interactive'' = (c\<lparr>interactive := 1\<rparr>, [])"
  by (simp add: cfg_load_arg_def strncmp0_def)

lemma cfg_load_arg_cue: "cfg_load_arg os c ''cue'' = (c\<lparr>cue := 1\<rparr>, [])"
  by (simp add: cfg_load_arg_def strncmp0_def)

lemma cfg_load_arg_nodetect: "cfg_load_arg os c ''nodetect'' = (c\<lparr>nodetect := 1\<rparr>, [])"
  by (simp add: cfg_load_arg_def strncmp0_def)

lemma cfg_load_arg_expand: "cfg_load_arg os c ''expand'' = (c\<lparr>expand := 1\<rparr>, [])"
  by (simp add: cfg_load_arg_def strncmp0_def)

lemma cfg_load_arg_sshformat: "cfg_load_arg os c ''sshformat'' = (c\<lparr>sshformat := 1\<rparr>, [])"
  by (simp add: cfg_load_arg_def strncmp0_def)

lemma cfg_load_arg_debug_flag: "cfg_load_arg os c ''debug'' = (c\<lparr>debug := 1\<rparr>, [])"
  by (simp add: cfg_load_arg_def cfg_load_arg_debug_def strncmp0_def)

lemma cfg_load_arg_max_devs:
  assumes "strncmp0 a ''max_devices='' 12"
  shows "cfg_load_arg os c a =
     (case sscanf_u (drop 12 a) of None \<Rightarrow> c | Some x \<Rightarrow> c\<lparr>max_devs := x\<rparr>, [])"
proof -
  from assms have "take 12 a = ''max_devices=''" by (simp add: strncmp0_def)
  then obtain v where v: "a = ''max_devices='' @ v" using prefixD by blast
  show ?thesis unfolding v by (simp add: cfg_load_arg_def strncmp0_def)
qed

lemma cfg_load_arg_userpresence:
  assumes "strncmp0 a ''userpresence='' 13"
  shows "cfg_load_arg os c a =
     (case sscanf_d (drop 13 a) of None \<Rightarrow> c | Some x \<Rightarrow> c\<lparr>userpresence := x\<rparr>, [])"
proof -
  from assms have "take 13 a = ''userpresence=''" by (simp add: strncmp0_def)
  then obtain v where v: "a = ''userpresence='' @ v" using prefixD by blast
  show ?thesis unfolding v by (simp add: cfg_load_arg_def strncmp0_def)
qed

lemma cfg_load_arg_userverification:
  assumes "strncmp0 a ''userverification='' 17"
  shows "cfg_load_arg os c a =
     (case sscanf_d (drop 17 a) of None \<Rightarrow> c | Some x \<Rightarrow> c\<lparr>userverification := x\<rparr>, [])"
proof -
  from assms have "take 17 a = ''userverification=''" by (simp add: strncmp0_def)
  then obtain v where v: "a = ''userverification='' @ v" using prefixD by blast
  show ?thesis unfolding v by (simp add: cfg_load_arg_def strncmp0_def)
qed

lemma cfg_load_arg_pinverification:
  assumes "strncmp0 a ''pinverification='' 16"
  shows "cfg_load_arg os c a =
     (case sscanf_d (drop 16 a) of None \<Rightarrow> c | Some x \<Rightarrow> c\<lparr>pinverification := x\<rparr>, [])"
proof -
  from assms have "take 16 a = ''pinverification=''" by (simp add: strncmp0_def)
  then obtain v where v: "a = ''pinverification='' @ v" using prefixD by blast
  show ?thesis unfolding v by (simp add: cfg_load_arg_def strncmp0_def)
qed

lemma cfg_load_arg_auth_file:
  assumes "strncmp0 a ''authfile='' 9"
  shows "cfg_load_arg os c a = (c\<lparr>auth_file := Some (drop 9 a)\<rparr>, [])"
proof -
  from assms have "take 9 a = ''authfile=''" by (simp add: strncmp0_def)
  then obtain v where v: "a = ''authfile='' @ v" using prefixD by blast
  show ?thesis unfolding v by (simp add: cfg_load_arg_def strncmp0_def)
qed

lemma cfg_load_arg_authpending_file:
  assumes "strncmp0 a ''authpending_file='' 17"
  shows "cfg_load_arg os c a = (c\<lparr>authpending_file := Some (drop 17 a)\<rparr>, [])"
proof -
  from assms have "take 17 a = ''authpending_file=''" by (simp add: strncmp0_def)
  then obtain v where v: "a = ''authpending_file='' @ v" using prefixD by blast
  show ?thesis unfolding v by (simp add: cfg_load_arg_def strncmp0_def)
qed

lemma cfg_load_arg_origin:
  assumes "strncmp0 a ''origin='' 7"
  shows "cfg_load_arg os c a = (c\<lparr>origin := Some (drop 7 a)\<rparr>, [])"
proof -
  from assms have "take 7 a = ''origin=''" by (simp add: strncmp0_def)
  then obtain v where v: "a = ''origin='' @ v" using prefixD by blast
  show ?thesis unfolding v by (simp add: cfg_load_arg_def strncmp0_def)
qed

lemma cfg_load_arg_appid:
  assumes "strncmp0 a ''appid='' 6"
  shows "cfg_load_arg os c a = (c\<lparr>appid := Some (drop 6 a)\<rparr>, [])"
proof -
  from assms have "take 6 a = ''appid=''" by (simp add: strncmp0_def)
  then obtain v where v: "a = ''appid='' @ v" using prefixD by blast
  show ?thesis unfolding v by (simp add: cfg_load_arg_def strncmp0_def)
qed

lemma cfg_load_arg_prompt:
  assumes "strncmp0 a ''prompt='' 7"
  shows "cfg_load_arg os c a = (c\<lparr>prompt := Some (drop 7 a)\<rparr>, [])"
proof -
  from assms have "take 7 a = ''prompt=''" by (simp add: strncmp0_def)
  then obtain v where v: "a = ''prompt='' @ v" using prefixD by blast
  show ?thesis unfolding v by (simp add: cfg_load_arg_def strncmp0_def)
qed

lemma cfg_load_arg_cue_prompt:
  assumes "strncmp0 a ''cue_prompt='' 11"
  shows "cfg_load_arg os c a = (c\<lparr>cue_prompt := Some (drop 11 a)\<rparr>, [])"
proof -
  from assms have "take 11 a = ''cue_prompt=''" by (simp add: strncmp0_def)
  then obtain v where v: "a = ''cue_prompt='' @ v" using prefixD by blast
  show ?thesis unfolding v by (simp add: cfg_load_arg_def strncmp0_def)
qed

lemma cfg_load_arg_debug_file:
  assumes "strncmp0 a ''debug_file='' 11"
  shows "cfg_load_arg os c a =
     (c\<lparr>debug_file := debug_open os (drop 11 a)\<rparr>,
      [Release (RSink (debug_file c)), Acquire (RSink (debug_open os (drop 11 a)))])"
proof -
  from assms have "take 11 a = ''debug_file=''" by (simp add: strncmp0_def)
  then obtain v where v: "a = ''debug_file='' @ v" using prefixD by blast
  show ?thesis unfolding v by (simp add: cfg_load_arg_def cfg_load_arg_debug_def strncmp0_def)
qed

lemmas cfg_load_arg_branches =
  cfg_load_arg_manual cfg_load_arg_nouserok cfg_load_arg_openasuser cfg_load_arg_alwaysok
  cfg_load_arg_interactive cfg_load_arg_cue cfg_load_arg_nodetect cfg_load_arg_expand
  cfg_load_arg_sshformat cfg_load_arg_debug_flag cfg_load_arg_max_devs cfg_load_arg_userpresence
  cfg_load_arg_userverification cfg_load_arg_pinverification cfg_load_arg_auth_file cfg_load_arg_authpending_file
  cfg_load_arg_origin cfg_load_arg_appid cfg_load_arg_prompt cfg_load_arg_cue_prompt
  cfg_load_arg_debug_file

lemma recognized_cases:
  assumes "recognized a"
  shows "a \<in> set flag_tokens \<or> (\<exists>k v. k \<in> set value_keys \<and> a = k @ v)"
proof (cases "a \<in> set flag_tokens")
  case True
  then show ?thesis by simp
next
  case False
  then obtain k where k: "k \<in> set value_keys" "take (length k) a = k"
    using assms by (auto simp: recognized_def list_ex_iff)
  then have "a = k @ drop (length k) a" by (metis append_take_drop_id)
  then show ?thesis using k by blast
qed


lemma arg_class:
  obtains (flag) "a \<in> set flag_tokens" | (kv) k v where "k \<in> set value_keys" "a = k @ v"
  | (other) "\<not> recognized a"
  using recognized_cases by blast

lemma unrecognized_value: "\<not> recognized a \<Longrightarrow> k \<in> set value_keys \<Longrightarrow> arg_value k a = None"
  by (auto simp: recognized_def list_ex_iff arg_value_def)

lemma unrecognized_flag: "\<not> recognized a \<Longrightarrow> k \<in> set flag_tokens \<Longrightarrow> arg_flag k a = None"
  by (auto simp: recognized_def arg_flag_def)

lemmas arg_defs = arg_value_def arg_flag_def arg_uint_def arg_int_def

lemma step_max_devs:
  "max_devs (fst (cfg_load_arg os c a)) = pick (arg_uint ''max_devices='' a) (max_devs c)"
proof (cases a rule: arg_class)
  case flag
  then show ?thesis unfolding flag_tokens_def
    by (auto simp: cfg_load_arg_branches arg_defs pick_def)
next
  case (kv k v)
  then show ?thesis unfolding value_keys_def
    by (auto simp: cfg_load_arg_branches arg_defs strncmp0_def pick_def split: option.splits)
next
  case other
  then show ?thesis
    using unrecognized_value [OF other, of "''max_devices=''"]
    by (simp add: cfg_load_arg_unrecognized arg_defs value_keys_def pick_def)
qed

lemma step_userpresence:
  "userpresence (fst (cfg_load_arg os c a)) = pick (arg_int ''userpresence='' a) (userpresence c)"
proof (cases a rule: arg_class)
  case flag
  then show ?thesis unfolding flag_tokens_def
    by (auto simp: cfg_load_arg_branches arg_defs pick_def)
next
  case (kv k v)
  then show ?thesis unfolding value_keys_def
    by (auto simp: cfg_load_arg_branches arg_defs strncmp0_def pick_def split: option.splits)
next
  case other
  then show ?thesis
    using unrecognized_value [OF other, of "''userpresence=''"]
    by (simp add: cfg_load_arg_unrecognized arg_defs value_keys_def pick_def)
qed

lemma step_userverification:
  "userverification (fst (cfg_load_arg os c a)) = pick (arg_int ''userverification='' a) (userverification c)"
proof (cases a rule: arg_class)
  case flag
  then show ?thesis unfolding flag_tokens_def
    by (auto simp: cfg_load_arg_branches arg_defs pick_def)
next
  case (kv k v)
  then show ?thesis unfolding value_keys_def
    by (auto simp: cfg_load_arg_branches arg_defs strncmp0_def pick_def split: option.splits)
next
  case other
  then show ?thesis
    using unrecognized_value [OF other, of "''userverification=''"]
    by (simp add: cfg_load_arg_unrecognized arg_defs value_keys_def pick_def)
qed

lemma step_pinverification:
  "pinverification (fst (cfg_load_arg os c a)) = pick (arg_int ''pinverification='' a) (pinverification c)"
proof (cases a rule: arg_class)
  case flag
  then show ?thesis unfolding flag_tokens_def
    by (auto simp: cfg_load_arg_branches arg_defs pick_def)
next
  case (kv k v)
  then show ?thesis unfolding value_keys_def
    by (auto simp: cfg_load_arg_branches arg_defs strncmp0_def pick_def split: option.splits)
next
  case other
  then show ?thesis
    using unrecognized_value [OF other, of "''pinverification=''"]
    by (simp add: cfg_load_arg_unrecognized arg_defs value_keys_def pick_def)
qed

lemma step_manual:
  "manual (fst (cfg_load_arg os c a)) = pick (arg_flag ''manual'' a) (manual c)"
proof (cases a rule: arg_class)
  case flag
  then show ?thesis unfolding flag_tokens_def
    by (auto simp: cfg_load_arg_branches arg_defs pick_def)
next
  case (kv k v)
  then show ?thesis unfolding value_keys_def
    by (auto simp: cfg_load_arg_branches arg_defs strncmp0_def pick_def split: option.splits)
next
  case other
  then show ?thesis
    using unrecognized_flag [OF other, of "''manual''"]
    by (simp add: cfg_load_arg_unrecognized arg_defs flag_tokens_def pick_def)
qed

lemma step_debug:
  "debug (fst (cfg_load_arg os c a)) = pick (arg_flag ''debug'' a) (debug c)"
proof (cases a rule: arg_class)
  case flag
  then show ?thesis unfolding flag_tokens_def
    by (auto simp: cfg_load_arg_branches arg_defs pick_def)
next
  case (kv k v)
  then show ?thesis unfolding value_keys_def
    by (auto simp: cfg_load_arg_branches arg_defs strncmp0_def pick_def split: option.splits)
next
  case other
  then show ?thesis
    using unrecognized_flag [OF other, of "''debug''"]
    by (simp add: cfg_load_arg_unrecognized arg_defs flag_tokens_def pick_def)
qed

lemma step_nouserok:
  "nouserok (fst (cfg_load_arg os c a)) = pick (arg_flag ''nouserok'' a) (nouserok c)"
proof (cases a rule: arg_class)
  case flag
  then show ?thesis unfolding flag_tokens_def
    by (auto simp: cfg_load_arg_branches arg_defs pick_def)
next
  case (kv k v)
  then show ?thesis unfolding value_keys_def
    by (auto simp: cfg_load_arg_branches arg_defs strncmp0_def pick_def split: option.splits)
next
  case other
  then show ?thesis
    using unrecognized_flag [OF other, of "''nouserok''"]
    by (simp add: cfg_load_arg_unrecognized arg_defs flag_tokens_def pick_def)
qed

lemma step_openasuser:
  "openasuser (fst (cfg_load_arg os c a)) = pick (arg_flag ''openasuser'' a) (openasuser c)"
proof (cases a rule: arg_class)
  case flag
  then show ?thesis unfolding flag_tokens_def
    by (auto simp: cfg_load_arg_branches arg_defs pick_def)
next
  case (kv k v)
  then show ?thesis unfolding value_keys_def
    by (auto simp: cfg_load_arg_branches arg_defs strncmp0_def pick_def split: option.splits)
next
  case other
  then show ?thesis
    using unrecognized_flag [OF other, of "''openasuser''"]
    by (simp add: cfg_load_arg_unrecognized arg_defs flag_tokens_def pick_def)
qed

lemma step_alwaysok:
  "alwaysok (fst (cfg_load_arg os c a)) = pick (arg_flag ''alwaysok'' a) (alwaysok c)"
proof (cases a rule: arg_class)
  case flag
  then show ?thesis unfolding flag_tokens_def
    by (auto simp: cfg_load_arg_branches arg_defs pick_def)
next
  case (kv k v)
  then show ?thesis unfolding value_keys_def
    by (auto simp: cfg_load_arg_branches arg_defs strncmp0_def pick_def split: option.splits)
next
  case other
  then show ?thesis
    using unrecognized_flag [OF other, of "''alwaysok''"]
    by (simp add: cfg_load_arg_unrecognized arg_defs flag_tokens_def pick_def)
qed

lemma step_interactive:
  "interactive (fst (cfg_load_arg os c a)) = pick (arg_flag ''interactive'' a) (interactive c)"
proof (cases a rule: arg_class)
  case flag
  then show ?thesis unfolding flag_tokens_def
    by (auto simp: cfg_load_arg_branches arg_defs pick_def)
next
  case (kv k v)
  then show ?thesis unfolding value_keys_def
    by (auto simp: cfg_load_arg_branches arg_defs strncmp0_def pick_def split: option.splits)
next
  case other
  then show ?thesis
    using unrecognized_flag [OF other, of "''interactive''"]
    by (simp add: cfg_load_arg_unrecognized arg_defs flag_tokens_def pick_def)
qed

lemma step_cue:
  "cue (fst (cfg_load_arg os c a)) = pick (arg_flag ''cue'' a) (cue c)"
proof (cases a rule: arg_class)
  case flag
  then show ?thesis unfolding flag_tokens_def
    by (auto simp: cfg_load_arg_branches arg_defs pick_def)
next
  case (kv k v)
  then show ?thesis unfolding value_keys_def
    by (auto simp: cfg_load_arg_branches arg_defs strncmp0_def pick_def split: option.splits)
next
  case other
  then show ?thesis
    using unrecognized_flag [OF other, of "''cue''"]
    by (simp add: cfg_load_arg_unrecognized arg_defs flag_tokens_def pick_def)
qed

lemma step_nodetect:
  "nodetect (fst (cfg_load_arg os c a)) = pick (arg_flag ''nodetect'' a) (nodetect c)"
proof (cases a rule: arg_class)
  case flag
  then show ?thesis unfolding flag_tokens_def
    by (auto simp: cfg_load_arg_branches arg_defs pick_def)
next
  case (kv k v)
  then show ?thesis unfolding value_keys_def
    by (auto simp: cfg_load_arg_branches arg_defs strncmp0_def pick_def split: option.splits)
next
  case other
  then show ?thesis
    using unrecognized_flag [OF other, of "''nodetect''"]
    by (simp add: cfg_load_arg_unrecognized arg_defs flag_tokens_def pick_def)
qed

lemma step_expand:
  "expand (fst (cfg_load_arg os c a)) = pick (arg_flag ''expand'' a) (expand c)"
proof (cases a rule: arg_class)
  case flag
  then show ?thesis unfolding flag_tokens_def
    by (auto simp: cfg_load_arg_branches arg_defs pick_def)
next
  case (kv k v)
  then show ?thesis unfolding value_keys_def
    by (auto simp: cfg_load_arg_branches arg_defs strncmp0_def pick_def split: option.splits)
next
  case other
  then show ?thesis
    using unrecognized_flag [OF other, of "''expand''"]
    by (simp add: cfg_load_arg_unrecognized arg_defs flag_tokens_def pick_def)
qed

lemma step_sshformat:
  "sshformat (fst (cfg_load_arg os c a)) = pick (arg_flag ''sshformat'' a) (sshformat c)"
proof (cases a rule: arg_class)
  case flag
  then show ?thesis unfolding flag_tokens_def
    by (auto simp: cfg_load_arg_branches arg_defs pick_def)
next
  case (kv k v)
  then show ?thesis unfolding value_keys_def
    by (auto simp: cfg_load_arg_branches arg_defs strncmp0_def pick_def split: option.splits)
next
  case other
  then show ?thesis
    using unrecognized_flag [OF other, of "''sshformat''"]
    by (simp add: cfg_load_arg_unrecognized arg_defs flag_tokens_def pick_def)
qed

lemma step_auth_file:
  "auth_file (fst (cfg_load_arg os c a)) = pick (map_option Some (arg_value ''authfile='' a)) (auth_file c)"
proof (cases a rule: arg_class)
  case flag
  then show ?thesis unfolding flag_tokens_def
    by (auto simp: cfg_load_arg_branches arg_defs pick_def)
next
  case (kv k v)
  then show ?thesis unfolding value_keys_def
    by (auto simp: cfg_load_arg_branches arg_defs strncmp0_def pick_def split: option.splits)
next
  case other
  then show ?thesis
    using unrecognized_value [OF other, of "''authfile=''"]
    by (simp add: cfg_load_arg_unrecognized arg_defs value_keys_def pick_def)
qed

lemma step_authpending_file:
  "authpending_file (fst (cfg_load_arg os c a)) = pick (map_option Some (arg_value ''authpending_file='' a)) (authpending_file c)"
proof (cases a rule: arg_class)
  case flag
  then show ?thesis unfolding flag_tokens_def
    by (auto simp: cfg_load_arg_branches arg_defs pick_def)
next
  case (kv k v)
  then show ?thesis unfolding value_keys_def
    by (auto simp: cfg_load_arg_branches arg_defs strncmp0_def pick_def split: option.splits)
next
  case other
  then show ?thesis
    using unrecognized_value [OF other, of "''authpending_file=''"]
    by (simp add: cfg_load_arg_unrecognized arg_defs value_keys_def pick_def)
qed

lemma step_origin:
  "origin (fst (cfg_load_arg os c a)) = pick (map_option Some (arg_value ''origin='' a)) (origin c)"
proof (cases a rule: arg_class)
  case flag
  then show ?thesis unfolding flag_tokens_def
    by (auto simp: cfg_load_arg_branches arg_defs pick_def)
next
  case (kv k v)
  then show ?thesis unfolding value_keys_def
    by (auto simp: cfg_load_arg_branches arg_defs strncmp0_def pick_def split: option.splits)
next
  case other
  then show ?thesis
    using unrecognized_value [OF other, of "''origin=''"]
    by (simp add: cfg_load_arg_unrecognized arg_defs value_keys_def pick_def)
qed

lemma step_appid:
  "appid (fst (cfg_load_arg os c a)) = pick (map_option Some (arg_value ''appid='' a)) (appid c)"
proof (cases a rule: arg_class)
  case flag
  then show ?thesis unfolding flag_tokens_def
    by (auto simp: cfg_load_arg_branches arg_defs pick_def)
next
  case (kv k v)
  then show ?thesis unfolding value_keys_def
    by (auto simp: cfg_load_arg_branches arg_defs strncmp0_def pick_def split: option.splits)
next
  case other
  then show ?thesis
    using unrecognized_value [OF other, of "''appid=''"]
    by (simp add: cfg_load_arg_unrecognized arg_defs value_keys_def pick_def)
qed

lemma step_prompt:
  "prompt (fst (cfg_load_arg os c a)) = pick (map_option Some (arg_value ''prompt='' a)) (prompt c)"
proof (cases a rule: arg_class)
  case flag
  then show ?thesis unfolding flag_tokens_def
    by (auto simp: cfg_load_arg_branches arg_defs pick_def)
next
  case (kv k v)
  then show ?thesis unfolding value_keys_def
    by (auto simp: cfg_load_arg_branches arg_defs strncmp0_def pick_def split: option.splits)
next
  case other
  then show ?thesis
    using unrecognized_value [OF other, of "''prompt=''"]
    by (simp add: cfg_load_arg_unrecognized arg_defs value_keys_def pick_def)
qed

lemma step_cue_prompt:
  "cue_prompt (fst (cfg_load_arg os c a)) = pick (map_option Some (arg_value ''cue_prompt='' a)) (cue_prompt c)"
proof (cases a rule: arg_class)
  case flag
  then show ?thesis unfolding flag_tokens_def
    by (auto simp: cfg_load_arg_branches arg_defs pick_def)
next
  case (kv k v)
  then show ?thesis unfolding value_keys_def
    by (auto simp: cfg_load_arg_branches arg_defs strncmp0_def pick_def split: option.splits)
next
  case other
  then show ?thesis
    using unrecognized_value [OF other, of "''cue_prompt=''"]
    by (simp add: cfg_load_arg_unrecognized arg_defs value_keys_def pick_def)
qed

lemma step_debug_file:
  "debug_file (fst (cfg_load_arg os c a)) =
     pick (map_option (debug_open os) (arg_value ''debug_file='' a)) (debug_file c)"
proof (cases a rule: arg_class)
  case flag
  then show ?thesis unfolding flag_tokens_def
    by (auto simp: cfg_load_arg_branches arg_defs pick_def)
next
  case (kv k v)
  then show ?thesis unfolding value_keys_def
    by (auto simp: cfg_load_arg_branches arg_defs strncmp0_def pick_def split: option.splits)
next
  case other
  then show ?thesis
    using unrecognized_value [OF other, of "''debug_file=''"]
    by (simp add: cfg_load_arg_unrecognized arg_defs value_keys_def pick_def)
qed

lemma step_defaults_buffer:
  "defaults_buffer (fst (cfg_load_arg os c a)) = defaults_buffer c"
proof (cases a rule: arg_class)
  case flag
  then show ?thesis unfolding flag_tokens_def
    by (auto simp: cfg_load_arg_branches)
next
  case (kv k v)
  then show ?thesis unfolding value_keys_def
    by (auto simp: cfg_load_arg_branches strncmp0_def split: option.splits)
next
  case other
  then show ?thesis by (simp add: cfg_load_arg_unrecognized)
qed

lemma apply_tokens_field:
  assumes "\<And>c a. f (fst (cfg_load_arg os c a)) = pick (g a) (f c)"
  shows "f (fst (apply_tokens os c toks)) = pick (last_assigned g toks) (f c)"
proof (induction toks arbitrary: c)
  case Nil
  then show ?case by (simp add: pick_def)
next
  case (Cons a toks)
  obtain c1 t1 where 1: "cfg_load_arg os c a = (c1, t1)" by (cases "cfg_load_arg os c a")
  obtain c2 t2 where 2: "apply_tokens os c1 toks = (c2, t2)" by (cases "apply_tokens os c1 toks")
  have "f c2 = pick (last_assigned g toks) (f c1)" using Cons [of c1] 2 by simp
  moreover have "f c1 = pick (g a) (f c)" using assms [of c a] 1 by simp
  ultimately show ?case using 1 2 by (simp add: pick_def split: option.splits)
qed

lemma last_assigned_map:
  "last_assigned (\<lambda>a. map_option h (g a)) toks = map_option h (last_assigned g toks)"
  by (induction toks) (auto split: option.splits)

lemma tokens_max_devs:
  "max_devs (fst (apply_tokens os c toks)) = pick (last_assigned (arg_uint ''max_devices='') toks) (max_devs c)"
  using apply_tokens_field [where f = max_devs and g = "arg_uint ''max_devices=''"] by (simp add: step_max_devs)

lemma tokens_userpresence:
  "userpresence (fst (apply_tokens os c toks)) = pick (last_assigned (arg_int ''userpresence='') toks) (userpresence c)"
  using apply_tokens_field [where f = userpresence and g = "arg_int ''userpresence=''"] by (simp add: step_userpresence)

lemma tokens_userverification:
  "userverification (fst (apply_tokens os c toks)) = pick (last_assigned (arg_int ''userverification='') toks) (userverification c)"
  using apply_tokens_field [where f = userverification and g = "arg_int ''userverification=''"] by (simp add: step_userverification)

lemma tokens_pinverification:
  "pinverification (fst (apply_tokens os c toks)) = pick (last_assigned (arg_int ''pinverification='') toks) (pinverification c)"
  using apply_tokens_field [where f = pinverification and g = "arg_int ''pinverification=''"] by (simp add: step_pinverification)

lemma tokens_manual:
  "manual (fst (apply_tokens os c toks)) = pick (last_assigned (arg_flag ''manual'') toks) (manual c)"
  using apply_tokens_field [where f = manual and g = "arg_flag ''manual''"] by (simp add: step_manual)

lemma tokens_debug:
  "debug (fst (apply_tokens os c toks)) = pick (last_assigned (arg_flag ''debug'') toks) (debug c)"
  using apply_tokens_field [where f = debug and g = "arg_flag ''debug''"] by (simp add: step_debug)

lemma tokens_nouserok:
  "nouserok (fst (apply_tokens os c toks)) = pick (last_assigned (arg_flag ''nouserok'') toks) (nouserok c)"
  using apply_tokens_field [where f = nouserok and g = "arg_flag ''nouserok''"] by (simp add: step_nouserok)

lemma tokens_openasuser:
  "openasuser (fst (apply_tokens os c toks)) = pick (last_assigned (arg_flag ''openasuser'') toks) (openasuser c)"
  using apply_tokens_field [where f = openasuser and g = "arg_flag ''openasuser''"] by (simp add: step_openasuser)

lemma tokens_alwaysok:
  "alwaysok (fst (apply_tokens os c toks)) = pick (last_assigned (arg_flag ''alwaysok'') toks) (alwaysok c)"
  using apply_tokens_field [where f = alwaysok and g = "arg_flag ''alwaysok''"] by (simp add: step_alwaysok)

lemma tokens_interactive:
  "interactive (fst (apply_tokens os c toks)) = pick (last_assigned (arg_flag ''interactive'') toks) (interactive c)"
  using apply_tokens_field [where f = interactive and g = "arg_flag ''interactive''"] by (simp add: step_interactive)

lemma tokens_cue:
  "cue (fst (apply_tokens os c toks)) = pick (last_assigned (arg_flag ''cue'') toks) (cue c)"
  using apply_tokens_field [where f = cue and g = "arg_flag ''cue''"] by (simp add: step_cue)

lemma tokens_nodetect:
  "nodetect (fst (apply_tokens os c toks)) = pick (last_assigned (arg_flag ''nodetect'') toks) (nodetect c)"
  using apply_tokens_field [where f = nodetect and g = "arg_flag ''nodetect''"] by (simp add: step_nodetect)

lemma tokens_expand:
  "expand (fst (apply_tokens os c toks)) = pick (last_assigned (arg_flag ''expand'') toks) (expand c)"
  using apply_tokens_field [where f = expand and g = "arg_flag ''expand''"] by (simp add: step_expand)

lemma tokens_sshformat:
  "sshformat (fst (apply_tokens os c toks)) = pick (last_assigned (arg_flag ''sshformat'') toks) (sshformat c)"
  using apply_tokens_field [where f = sshformat and g = "arg_flag ''sshformat''"] by (simp add: step_sshformat)

lemma tokens_auth_file:
  "auth_file (fst (apply_tokens os c toks)) =
     pick (map_option Some (last_assigned (arg_value ''authfile='') toks)) (auth_file c)"
  using apply_tokens_field [where f = auth_file and g = "\<lambda>a. map_option Some (arg_value ''authfile='' a)"]
  by (simp add: step_auth_file last_assigned_map)

lemma tokens_authpending_file:
  "authpending_file (fst (apply_tokens os c toks)) =
     pick (map_option Some (last_assigned (arg_value ''authpending_file='') toks)) (authpending_file c)"
  using apply_tokens_field [where f = authpending_file and g = "\<lambda>a. map_option Some (arg_value ''authpending_file='' a)"]
  by (simp add: step_authpending_file last_assigned_map)

lemma tokens_origin:
  "origin (fst (apply_tokens os c toks)) =
     pick (map_option Some (last_assigned (arg_value ''origin='') toks)) (origin c)"
  using apply_tokens_field [where f = origin and g = "\<lambda>a. map_option Some (arg_value ''origin='' a)"]
  by (simp add: step_origin last_assigned_map)

lemma tokens_appid:
  "appid (fst (apply_tokens os c toks)) =
     pick (map_option Some (last_assigned (arg_value ''appid='') toks)) (appid c)"
  using apply_tokens_field [where f = appid and g = "\<lambda>a. map_option Some (arg_value ''appid='' a)"]
  by (simp add: step_appid last_assigned_map)

lemma tokens_prompt:
  "prompt (fst (apply_tokens os c toks)) =
     pick (map_option Some (last_assigned (arg_value ''prompt='') toks)) (prompt c)"
  using apply_tokens_field [where f = prompt and g = "\<lambda>a. map_option Some (arg_value ''prompt='' a)"]
  by (simp add: step_prompt last_assigned_map)

lemma tokens_cue_prompt:
  "cue_prompt (fst (apply_tokens os c toks)) =
     pick (map_option Some (last_assigned (arg_value ''cue_prompt='') toks)) (cue_prompt c)"
  using apply_tokens_field [where f = cue_prompt and g = "\<lambda>a. map_option Some (arg_value ''cue_prompt='' a)"]
  by (simp add: step_cue_prompt last_assigned_map)

lemma tokens_debug_file:
  "debug_file (fst (apply_tokens os c toks)) =
     pick (map_option (debug_open os) (last_assigned (arg_value ''debug_file='') toks))
       (debug_file c)"
  using apply_tokens_field [where f = debug_file
      and g = "\<lambda>a. map_option (debug_open os) (arg_value ''debug_file='' a)"]
  by (simp add: step_debug_file last_assigned_map)

lemma last_assigned_None: "last_assigned (\<lambda>a. None) toks = None"
  by (induction toks) auto

lemma tokens_defaults_buffer:
  "defaults_buffer (fst (apply_tokens os c toks)) = defaults_buffer c"
  using apply_tokens_field [where f = defaults_buffer and g = "\<lambda>a. None"]
  by (simp add: step_defaults_buffer pick_def last_assigned_None)

lemmas apply_tokens_fields =
  tokens_max_devs tokens_userpresence tokens_userverification tokens_pinverification
  tokens_manual tokens_debug tokens_nouserok tokens_openasuser
  tokens_alwaysok tokens_interactive tokens_cue tokens_nodetect
  tokens_expand tokens_sshformat tokens_auth_file tokens_authpending_file
  tokens_origin tokens_appid tokens_prompt tokens_cue_prompt
  tokens_debug_file tokens_defaults_buffer

lemma apply_tokens_merge: "fst (apply_tokens os c toks) = merge_tokens os toks c"
  by (rule cfg.equality) (simp_all add: merge_tokens_def apply_tokens_fields)

lemma full_scan_tokens:
  "full_scan os c argv = apply_tokens os c (filter (\<lambda>a. \<not> strncmp0 a ''conf='' 5) argv)"
  by (induction argv arbitrary: c) (auto split: prod.splits)

lemma cfg_load_lines_tokens:
  "cfg_load_lines os c lines = apply_tokens os c (List.map_filter line_token lines)"
  by (induction lines arbitrary: c) (auto split: option.splits prod.splits)

lemma cfg_load_buffer_tokens:
  "cfg_load_buffer os c buffer = apply_tokens os c (file_tokens buffer)"
  by (simp add: cfg_load_buffer_def file_tokens_def cfg_load_lines_tokens)

lemma last_assigned_filter:
  assumes "\<And>a. \<not> P a \<Longrightarrow> g a = None"
  shows "last_assigned g (filter P xs) = last_assigned g xs"
  by (induction xs) (auto simp: assms split: option.splits)

lemma conf_value:
  assumes "strncmp0 a ''conf='' 5" "k \<in> set value_keys"
  shows "arg_value k a = None"
proof -
  from assms(1) have "take 5 a = ''conf=''" by (simp add: strncmp0_def)
  then obtain v where v: "a = ''conf='' @ v" using prefixD by blast
  show ?thesis using assms(2) unfolding v value_keys_def by (auto simp: arg_value_def)
qed

lemma conf_flag:
  assumes "strncmp0 a ''conf='' 5" "k \<in> set flag_tokens"
  shows "arg_flag k a = None"
proof -
  from assms(1) have "take 5 a = ''conf=''" by (simp add: strncmp0_def)
  then obtain v where v: "a = ''conf='' @ v" using prefixD by blast
  show ?thesis using assms(2) unfolding v flag_tokens_def by (auto simp: arg_flag_def)
qed

lemma last_assigned_value_conf:
  "k \<in> set value_keys \<Longrightarrow>
   last_assigned (arg_value k) (filter (\<lambda>a. \<not> strncmp0 a ''conf='' 5) xs)
     = last_assigned (arg_value k) xs"
  by (rule last_assigned_filter) (simp add: conf_value)

lemma last_assigned_uint_conf:
  "k \<in> set value_keys \<Longrightarrow>
   last_assigned (arg_uint k) (filter (\<lambda>a. \<not> strncmp0 a ''conf='' 5) xs)
     = last_assigned (arg_uint k) xs"
  by (rule last_assigned_filter) (simp add: conf_value arg_uint_def)

lemma last_assigned_int_conf:
  "k \<in> set value_keys \<Longrightarrow>
   last_assigned (arg_int k) (filter (\<lambda>a. \<not> strncmp0 a ''conf='' 5) xs)
     = last_assigned (arg_int k) xs"
  by (rule last_assigned_filter) (simp add: conf_value arg_int_def)

lemma last_assigned_flag_conf:
  "k \<in> set flag_tokens \<Longrightarrow>
   last_assigned (arg_flag k) (filter (\<lambda>a. \<not> strncmp0 a ''conf='' 5) xs)
     = last_assigned (arg_flag k) xs"
  by (rule last_assigned_filter) (simp add: conf_flag)

lemma merge_tokens_conf:
  "merge_tokens os (filter (\<lambda>a. \<not> strncmp0 a ''conf='' 5) argv) c = merge_tokens os argv c"
  unfolding merge_tokens_def
  by (simp add: last_assigned_value_conf last_assigned_uint_conf last_assigned_int_conf
      last_assigned_flag_conf value_keys_def flag_tokens_def)

lemma full_scan_merge: "fst (full_scan os c argv) = merge_tokens os argv c"
  by (simp add: full_scan_tokens apply_tokens_merge merge_tokens_conf)

subsection \<open>Tokens that change nothing\<close>

lemma sscanf_d_yes: "sscanf_d ''yes'' = None"
  by (simp add: sscanf_d_def scan_int_def Let_def isspace_def isdigit_def)

text \<open>
  Claim C7. A token that is not recognized, and a token with one of the four numeric keys
  whose value does not parse as a number, leaves the record as it was and has no effect:
  \<open>cfg_load_arg\<close> returns the record unchanged, and it returns no error at all.
\<close>

theorem ignored_tokens_are_noops:
  "(\<not> recognized tok \<longrightarrow> cfg_load_arg os c tok = (c, []))
   \<and> (take 12 tok = ''max_devices='' \<and> sscanf_u (drop 12 tok) = None
        \<longrightarrow> cfg_load_arg os c tok = (c, []))
   \<and> (take 13 tok = ''userpresence='' \<and> sscanf_d (drop 13 tok) = None
        \<longrightarrow> cfg_load_arg os c tok = (c, []))
   \<and> (take 17 tok = ''userverification='' \<and> sscanf_d (drop 17 tok) = None
        \<longrightarrow> cfg_load_arg os c tok = (c, []))
   \<and> (take 16 tok = ''pinverification='' \<and> sscanf_d (drop 16 tok) = None
        \<longrightarrow> cfg_load_arg os c tok = (c, []))"
  by (simp add: cfg_load_arg_unrecognized cfg_load_arg_max_devs cfg_load_arg_userpresence
      cfg_load_arg_userverification cfg_load_arg_pinverification strncmp0_def)

theorem ignored_tokens_are_noops_witness:
  "cfg_load_arg (os_example 0x41ED 0x41ED None) cfg_stale ''colour=blue'' = (cfg_stale, [])
   \<and> cfg_load_arg (os_example 0x41ED 0x41ED None) cfg_stale ''userpresence=yes''
       = (cfg_stale, [])"
proof -
  have 1: "\<not> recognized ''colour=blue''"
    by (simp add: recognized_def flag_tokens_def value_keys_def)
  have 2: "take 13 ''userpresence=yes'' = ''userpresence=''
      \<and> sscanf_d (drop 13 ''userpresence=yes'') = None"
    by (simp add: sscanf_d_yes)
  show ?thesis
    using ignored_tokens_are_noops [of "''colour=blue''" "os_example 0x41ED 0x41ED None" cfg_stale]
      ignored_tokens_are_noops [of "''userpresence=yes''" "os_example 0x41ED 0x41ED None" cfg_stale]
      1 2
    by blast
qed

subsection \<open>Arguments and file\<close>

lemma file_tokens_example:
  "file_tokens (''debug\<newline>max_devices=5\<newline>'') = [''debug'', ''max_devices=5'']"
  by (simp add: file_tokens_def c_str_def strtok_all.simps strtok_r_def line_token_def
      pack_def Let_def ltrim_def rtrim_rev isspace_def List.map_filter_simps)

lemma sscanf_u_3: "sscanf_u ''3'' = Some 3"
  by (simp add: sscanf_u_def scan_int_def Let_def isspace_def isdigit_def dec_val_def digit_val_def)
lemma sscanf_u_5: "sscanf_u ''5'' = Some 5"
  by (simp add: sscanf_u_def scan_int_def Let_def isspace_def isdigit_def dec_val_def digit_val_def)
lemma cfg_init_ok:
  assumes "early_scan os (cfg_reset c0) None argv = ((c1, cp), t1)"
    and "cfg_load_defaults os c1 cp = ((PAM_SUCCESS, c2), t2)"
  shows "fst (cfg_init os c0 argv) = (PAM_SUCCESS, fst (full_scan os c2 argv))"
  using assms by (simp add: cfg_init_def Let_def split: prod.splits)

lemma cfg_init_failed:
  assumes "early_scan os (cfg_reset c0) None argv = ((c1, cp), t1)"
    and "cfg_load_defaults os c1 cp = ((r, c2), t2)" and "r \<noteq> PAM_SUCCESS"
  shows "fst (cfg_init os c0 argv) = (r, cfg_reset c2)"
  using assms by (simp add: cfg_init_def Let_def cfg_free_def split: prod.splits)

lemma cfg_init_success:
  assumes "fst (fst (cfg_init os c0 argv)) = PAM_SUCCESS"
  shows "snd (fst (cfg_init os c0 argv)) = merge_tokens os argv (after_file os c0 argv)"
proof -
  obtain c1 cp t1 where e: "early_scan os (cfg_reset c0) None argv = ((c1, cp), t1)"
    by (metis surj_pair)
  obtain r c2 t2 where d: "cfg_load_defaults os c1 cp = ((r, c2), t2)"
    by (metis surj_pair)
  obtain c3 t3 where f: "full_scan os c2 argv = (c3, t3)" by (metis surj_pair)
  have r: "r = PAM_SUCCESS"
    using assms by (simp add: cfg_init_def e d Let_def cfg_free_def split: if_splits prod.splits)
  have "snd (fst (cfg_init os c0 argv)) = c3"
    by (simp add: cfg_init_def e d f r Let_def)
  also have "c3 = merge_tokens os argv c2" using full_scan_merge [of os c2 argv] f by simp
  also have "c2 = after_file os c0 argv" by (simp add: after_file_def e d)
  finally show ?thesis .
qed


lemma cfg_init_example:
  assumes o: "fst (open_safely os (cfg_default_path os)) = Inr (Some fd, n)" and n: "0 < n"
    and sl: "fst (slurp os fd n) = Inr (''debug\<newline>max_devices=5\<newline>'')"
  shows "fst (fst (cfg_init os c0 [''max_devices=3''])) = PAM_SUCCESS
    \<and> max_devs (after_file os c0 [''max_devices=3'']) = 5
    \<and> debug (snd (fst (cfg_init os c0 [''max_devices=3'']))) = 1
    \<and> max_devs (snd (fst (cfg_init os c0 [''max_devices=3'']))) = 3"
proof -
  let ?content = "''debug\<newline>max_devices=5\<newline>''"
  let ?c = "cfg_reset c0"
  let ?c2 = "?c\<lparr>max_devs := 5, debug := 1, defaults_buffer := Some ?content\<rparr>"
  have e: "early_scan os ?c None [''max_devices=3''] = ((?c, None), [])"
    by (simp add: strncmp0_def cfg_load_arg_debug_def)
  obtain tr where o': "open_safely os (cfg_default_path os) = (Inr (Some fd, n), tr)"
    using o by (cases "open_safely os (cfg_default_path os)") simp
  obtain tr2 where sl': "slurp os fd n = (Inr ?content, tr2)"
    using sl by (cases "slurp os fd n") simp
  have b: "cfg_load_buffer os ?c ?content = (?c\<lparr>debug := 1, max_devs := 5\<rparr>, [])"
    unfolding cfg_load_buffer_tokens file_tokens_example
    by (simp add: cfg_load_arg_debug_flag cfg_load_arg_max_devs strncmp0_def sscanf_u_5)
  have d: "fst (cfg_load_defaults os ?c None) = (PAM_SUCCESS, ?c2)"
    using n by (simp add: cfg_load_defaults_def o' sl' b)
  have a: "after_file os c0 [''max_devices=3''] = ?c2"
    unfolding after_file_def e by (simp add: d)
  have ok: "fst (fst (cfg_init os c0 [''max_devices=3''])) = PAM_SUCCESS"
  proof -
    obtain t2 where d': "cfg_load_defaults os ?c None = ((PAM_SUCCESS, ?c2), t2)"
      using d by (cases "cfg_load_defaults os ?c None") simp
    show ?thesis using cfg_init_ok [OF e d'] by simp
  qed
  have m: "snd (fst (cfg_init os c0 [''max_devices=3'']))
      = merge_tokens os [''max_devices=3''] ?c2"
    using cfg_init_success [OF ok] a by simp
  have g1: "arg_uint ''max_devices='' ''max_devices=3'' = Some 3"
    by (simp add: arg_uint_def arg_value_def sscanf_u_3)
  have g2: "arg_flag ''debug'' ''max_devices=3'' = None"
    by (simp add: arg_flag_def)
  show ?thesis
    by (simp add: ok a m merge_tokens_def g1 g2 pick_def cfg_reset_def)
qed

lemma example_open:
  "fst (open_safely (os_example 0x41ED 0x41ED (Some bs)) ''/etc/u2f.conf'')
     = Inr (Some 5, length bs)"
  by (simp add: open_safely_def os_example_def strtok_all.simps strtok_r_def open_leaf_def
      S_ISDIR_def S_ISREG_def S_ISLNK_def S_IFMT_def S_IFDIR_def S_IFREG_def S_IFLNK_def
      S_IWGRP_def S_IWOTH_def split: prod.splits)

lemma example_slurp:
  "fst (slurp (os_example 0x41ED 0x41ED (Some ''debug\<newline>max_devices=5\<newline>'')) 5 20)
     = Inr ''debug\<newline>max_devices=5\<newline>''"
  by (simp add: slurp_def os_example_def slurp_loop.simps)

text \<open>
  Claim C2. When \<open>cfg_init\<close> succeeds, the record it returns is the record of the file
  phase with the arguments merged over it: every field that an argument assigns holds
  what the last such argument gives, whatever the file gave, and a field keeps the value
  of the file phase only when no argument assigns it. For a default file that reads
  \<^verbatim>\<open>debug\<close>, \<^verbatim>\<open>max_devices=5\<close> and the argument \<^verbatim>\<open>max_devices=3\<close>, the file phase
  leaves \<open>max_devs = 5\<close>, and the result has \<open>debug = 1\<close> and \<open>max_devs = 3\<close>.
\<close>

theorem arguments_override_file:
  "(fst (fst (cfg_init os c0 argv)) = PAM_SUCCESS
      \<longrightarrow> snd (fst (cfg_init os c0 argv)) = merge_tokens os argv (after_file os c0 argv))
   \<and> (fst (open_safely os (cfg_default_path os)) = Inr (Some fd, n) \<and> 0 < n
        \<and> fst (slurp os fd n) = Inr ''debug\<newline>max_devices=5\<newline>''
      \<longrightarrow> fst (fst (cfg_init os c0 [''max_devices=3''])) = PAM_SUCCESS
          \<and> max_devs (after_file os c0 [''max_devices=3'']) = 5
          \<and> debug (snd (fst (cfg_init os c0 [''max_devices=3'']))) = 1
          \<and> max_devs (snd (fst (cfg_init os c0 [''max_devices=3'']))) = 3)"
  using cfg_init_success [of os c0 argv] cfg_init_example [of os fd n c0] by blast

theorem arguments_override_file_witness:
  "fst (fst (cfg_init (os_example 0x41ED 0x41ED (Some ''debug\<newline>max_devices=5\<newline>''))
          cfg_stale [''max_devices=3''])) = PAM_SUCCESS
   \<and> max_devs (after_file (os_example 0x41ED 0x41ED (Some ''debug\<newline>max_devices=5\<newline>''))
          cfg_stale [''max_devices=3'']) = 5
   \<and> debug (snd (fst (cfg_init
          (os_example 0x41ED 0x41ED (Some ''debug\<newline>max_devices=5\<newline>''))
          cfg_stale [''max_devices=3'']))) = 1
   \<and> max_devs (snd (fst (cfg_init
          (os_example 0x41ED 0x41ED (Some ''debug\<newline>max_devices=5\<newline>''))
          cfg_stale [''max_devices=3'']))) = 3"
proof -
  let ?os = "os_example 0x41ED 0x41ED (Some ''debug\<newline>max_devices=5\<newline>'')"
  have p: "cfg_default_path ?os = ''/etc/u2f.conf''" by (simp add: os_example_def)
  have o: "fst (open_safely ?os (cfg_default_path ?os)) = Inr (Some 5, 20)"
    unfolding p using example_open [of "''debug\<newline>max_devices=5\<newline>''"] by simp
  have n: "(0::nat) < 20" by simp
  show ?thesis
    using arguments_override_file [of ?os cfg_stale "[''max_devices=3'']" 5 20] o n
      example_slurp
    by blast
qed

subsection \<open>The tri-state fields\<close>


lemma explicitly_assigned_mono:
  "explicitly_assigned key toks v \<Longrightarrow> set toks \<subseteq> set toks' \<Longrightarrow> explicitly_assigned key toks' v"
  by (auto simp: explicitly_assigned_def list_ex_iff)

lemma tri_state_ok_mono:
  "tri_state_ok toks c \<Longrightarrow> set toks \<subseteq> set toks' \<Longrightarrow> tri_state_ok toks' c"
  unfolding tri_state_ok_def using explicitly_assigned_mono by blast

lemma tri_state_ok_reset: "tri_state_ok toks (cfg_reset c)"
  by (simp add: tri_state_ok_def cfg_reset_def)

lemma tri_field_step:
  assumes "v = - 1 \<or> explicitly_assigned key toks v"
  shows "pick (arg_int key a) v = - 1 \<or> explicitly_assigned key (toks @ [a]) (pick (arg_int key a) v)"
proof (cases "arg_int key a")
  case None
  then show ?thesis using assms explicitly_assigned_mono [of key toks v "toks @ [a]"]
    by (auto simp: pick_def)
next
  case (Some x)
  then show ?thesis by (simp add: pick_def explicitly_assigned_def)
qed

lemma tri_state_ok_arg:
  assumes "tri_state_ok toks c"
  shows "tri_state_ok (toks @ [a]) (fst (cfg_load_arg os c a))"
  using assms unfolding tri_state_ok_def step_userpresence step_userverification
    step_pinverification
  by (intro conjI tri_field_step) simp_all

lemma tri_state_ok_arg_debug:
  assumes "tri_state_ok toks c"
  shows "tri_state_ok toks (fst (cfg_load_arg_debug os c a))"
  using assms by (simp add: cfg_load_arg_debug_def tri_state_ok_def)

lemma tri_state_ok_tokens:
  "tri_state_ok toks c \<Longrightarrow> tri_state_ok (toks @ as) (fst (apply_tokens os c as))"
proof (induction as arbitrary: toks c)
  case Nil
  then show ?case by simp
next
  case (Cons a as)
  obtain c1 t1 where 1: "cfg_load_arg os c a = (c1, t1)" by (cases "cfg_load_arg os c a")
  have "tri_state_ok (toks @ [a]) c1" using tri_state_ok_arg [OF Cons.prems, of a os] 1 by simp
  from Cons.IH [OF this] show ?case using 1
    by (cases "apply_tokens os c1 as") simp
qed

lemma tri_state_ok_buffer:
  "tri_state_ok toks c \<Longrightarrow> tri_state_ok (toks @ file_tokens buffer) (fst (cfg_load_buffer os c buffer))"
  by (simp add: cfg_load_buffer_tokens tri_state_ok_tokens)

lemma tri_state_ok_early:
  "tri_state_ok toks c \<Longrightarrow> tri_state_ok toks (fst (fst (early_scan os c cp argv)))"
proof (induction argv arbitrary: c cp)
  case Nil
  then show ?case by simp
next
  case (Cons a as)
  show ?case
  proof (cases "strncmp0 a ''conf='' 5")
    case True
    then show ?thesis using Cons by simp
  next
    case False
    obtain c1 t1 where 1: "cfg_load_arg_debug os c a = (c1, t1)"
      by (cases "cfg_load_arg_debug os c a")
    have "tri_state_ok toks c1" using tri_state_ok_arg_debug [OF Cons.prems, of os a] 1 by simp
    from Cons.IH [OF this, of cp] show ?thesis using False 1
      by (cases "early_scan os c1 cp as") simp
  qed
qed

lemma cfg_load_defaults_cases:
  obtains (same) "snd (fst (cfg_load_defaults os c cp)) = c"
  | (loaded) buffer where
      "fst (fst (cfg_load_defaults os c cp)) = PAM_SUCCESS"
      "snd (fst (cfg_load_defaults os c cp))
         = (fst (cfg_load_buffer os c buffer))\<lparr>defaults_buffer := Some buffer\<rparr>"
proof -
  let ?path = "case cp of Some p \<Rightarrow> p | None \<Rightarrow> cfg_default_path os"
  obtain res tr where o: "open_safely os ?path = (res, tr)" by (cases "open_safely os ?path")
  show thesis
  proof (cases res)
    case (Inl r)
    then show thesis using o same by (simp add: cfg_load_defaults_def)
  next
    case (Inr x)
    obtain ofd fsize where x: "x = (ofd, fsize)" by (cases x)
    show thesis
    proof (cases ofd)
      case None
      then show thesis using o Inr x same by (simp add: cfg_load_defaults_def)
    next
      case (Some fd)
      show thesis
      proof (cases "fsize = 0")
        case True
        then show thesis using o Inr x Some same by (simp add: cfg_load_defaults_def)
      next
        case False
        obtain sres tr2 where sl: "slurp os fd fsize = (sres, tr2)" by (cases "slurp os fd fsize")
        show thesis
        proof (cases sres)
          case (Inl r)
          then show thesis using o Inr x Some False sl same by (simp add: cfg_load_defaults_def)
        next
          case (Inr buffer)
          obtain c1 tr3 where b: "cfg_load_buffer os c buffer = (c1, tr3)"
            by (cases "cfg_load_buffer os c buffer")
          show thesis
            using o \<open>res = Inr x\<close> x Some False sl Inr b loaded [of buffer]
            by (simp add: cfg_load_defaults_def)
        qed
      qed
    qed
  qed
qed

lemma tri_state_ok_defaults:
  assumes "tri_state_ok toks c"
  shows "tri_state_ok (toks @ buffer_tokens (defaults_buffer (snd (fst (cfg_load_defaults os c cp)))))
           (snd (fst (cfg_load_defaults os c cp)))"
proof (cases rule: cfg_load_defaults_cases [of os c cp])
  case same
  then show ?thesis using tri_state_ok_mono [OF assms] by simp
next
  case (loaded buffer)
  have "tri_state_ok (toks @ file_tokens buffer) (fst (cfg_load_buffer os c buffer))"
    using assms by (rule tri_state_ok_buffer)
  then show ?thesis unfolding loaded(2) by (simp add: buffer_tokens_def tri_state_ok_def)
qed

lemma tri_state_ok_free: "tri_state_ok toks (fst (cfg_free os c))"
  by (simp add: cfg_free_def tri_state_ok_reset)

lemma tri_state_ok_init:
  "tri_state_ok (buffer_tokens (defaults_buffer (snd (fst (cfg_init os c0 argv)))) @ argv)
     (snd (fst (cfg_init os c0 argv)))"
proof -
  obtain c1 cp t1 where e: "early_scan os (cfg_reset c0) None argv = ((c1, cp), t1)"
    by (metis surj_pair)
  obtain r c2 t2 where d: "cfg_load_defaults os c1 cp = ((r, c2), t2)"
    by (metis surj_pair)
  show ?thesis
  proof (cases "r = PAM_SUCCESS")
    case False
    then show ?thesis using cfg_init_failed [OF e d] by (simp add: tri_state_ok_reset)
  next
    case True
    let ?args = "filter (\<lambda>a. \<not> strncmp0 a ''conf='' 5) argv"
    let ?c3 = "fst (full_scan os c2 argv)"
    have c3: "snd (fst (cfg_init os c0 argv)) = ?c3" using cfg_init_ok [OF e d [unfolded True]] by simp
    have 1: "tri_state_ok [] c1" using tri_state_ok_early [OF tri_state_ok_reset, of "[]" os c0 None argv] e by simp
    have 2: "tri_state_ok (buffer_tokens (defaults_buffer c2)) c2"
      using tri_state_ok_defaults [OF 1, of os cp] d by simp
    have 3: "tri_state_ok (buffer_tokens (defaults_buffer c2) @ ?args) ?c3"
      using tri_state_ok_tokens [OF 2, of ?args os] by (simp add: full_scan_tokens)
    have b: "defaults_buffer ?c3 = defaults_buffer c2"
      by (simp add: full_scan_tokens tokens_defaults_buffer)
    show ?thesis unfolding c3 b by (rule tri_state_ok_mono [OF 3]) auto
  qed
qed

lemma sscanf_d_0: "sscanf_d ''0'' = Some 0"
  by (simp add: sscanf_d_def scan_int_def Let_def isspace_def isdigit_def dec_val_def
      digit_val_def)

lemma sscanf_d_1: "sscanf_d ''1'' = Some 1"
  by (simp add: sscanf_d_def scan_int_def Let_def isspace_def isdigit_def dec_val_def
      digit_val_def)

text \<open>
  Claim C9. After every operation on the record, each of \<open>userpresence\<close>,
  \<open>userverification\<close> and \<open>pinverification\<close> is -1 or the value that a token applied to
  the record assigned: \<open>cfg_reset\<close> and \<open>cfg_free\<close> establish the invariant;
  \<open>cfg_load_arg\<close>, \<open>cfg_load_arg_debug\<close>, \<open>cfg_load_buffer\<close> and \<open>cfg_load_defaults\<close>
  keep it, with the tokens they apply added; and the record that \<open>cfg_init\<close> returns
  satisfies it for the tokens of the file buffer it holds and the arguments.
\<close>

theorem tri_state_invariant:
  "tri_state_ok toks (cfg_reset c)
   \<and> (tri_state_ok toks c \<longrightarrow> tri_state_ok (toks @ [a]) (fst (cfg_load_arg os c a)))
   \<and> (tri_state_ok toks c \<longrightarrow> tri_state_ok toks (fst (cfg_load_arg_debug os c a)))
   \<and> (tri_state_ok toks c
        \<longrightarrow> tri_state_ok (toks @ file_tokens buffer) (fst (cfg_load_buffer os c buffer)))
   \<and> (tri_state_ok toks c
        \<longrightarrow> tri_state_ok
              (toks @ buffer_tokens (defaults_buffer (snd (fst (cfg_load_defaults os c cp)))))
              (snd (fst (cfg_load_defaults os c cp))))
   \<and> tri_state_ok toks (fst (cfg_free os c))
   \<and> tri_state_ok (buffer_tokens (defaults_buffer (snd (fst (cfg_init os c0 argv)))) @ argv)
        (snd (fst (cfg_init os c0 argv)))"
  by (simp add: tri_state_ok_reset tri_state_ok_arg tri_state_ok_arg_debug tri_state_ok_buffer
      tri_state_ok_defaults tri_state_ok_free tri_state_ok_init)

theorem tri_state_invariant_witness:
  "tri_state_ok [''userpresence=1'', ''userverification=0''] cfg_stale
   \<and> tri_state_ok ([''userpresence=1'', ''userverification=0''] @ [''pinverification=1''])
        (fst (cfg_load_arg (os_example 0x41ED 0x41ED None) cfg_stale ''pinverification=1''))
   \<and> pinverification
        (fst (cfg_load_arg (os_example 0x41ED 0x41ED None) cfg_stale ''pinverification=1'')) = 1"
proof -
  have h: "tri_state_ok [''userpresence=1'', ''userverification=0''] cfg_stale"
    by (simp add: tri_state_ok_def explicitly_assigned_def arg_int_def arg_value_def
        cfg_stale_def sscanf_d_0 sscanf_d_1)
  have p: "pinverification
        (fst (cfg_load_arg (os_example 0x41ED 0x41ED None) cfg_stale ''pinverification=1'')) = 1"
    by (simp add: cfg_load_arg_pinverification strncmp0_def sscanf_d_1)
  show ?thesis
    using tri_state_invariant [where toks = "[''userpresence=1'', ''userverification=0'']"
        and c = cfg_stale and a = "''pinverification=1''"
        and os = "os_example 0x41ED 0x41ED None"] h p
    by blast
qed

subsection \<open>The configuration path\<close>

lemma arg_value_conf:
  "arg_value ''conf='' a = (if strncmp0 a ''conf='' 5 then Some (drop 5 a) else None)"
proof -
  have l: "length ''conf='' = 5" by simp
  show ?thesis unfolding arg_value_def l by (simp add: strncmp0_def)
qed

lemma early_scan_path:
  "snd (fst (early_scan os c cp argv))
     = pick (map_option Some (last_assigned (arg_value ''conf='') argv)) cp"
proof (induction argv arbitrary: c cp)
  case Nil
  then show ?case by (simp add: pick_def)
next
  case (Cons a as)
  show ?case
  proof (cases "strncmp0 a ''conf='' 5")
    case True
    then show ?thesis using Cons [of c "Some (drop 5 a)"]
      by (simp add: arg_value_conf pick_def split: option.splits)
  next
    case False
    obtain c1 t1 where 1: "cfg_load_arg_debug os c a = (c1, t1)"
      by (cases "cfg_load_arg_debug os c a")
    show ?thesis using False 1 Cons [of c1 cp]
      by (cases "early_scan os c1 cp as") (simp add: arg_value_conf pick_def split: option.splits)
  qed
qed

lemma early_scan_rest:
  "(fst (fst (early_scan os c cp argv)), snd (early_scan os c cp argv))
     = (fst (fst (early_scan os c None (filter (\<lambda>a. \<not> strncmp0 a ''conf='' 5) argv))),
        snd (early_scan os c None (filter (\<lambda>a. \<not> strncmp0 a ''conf='' 5) argv)))"
proof (induction argv arbitrary: c cp)
  case Nil
  then show ?case by simp
next
  case (Cons a as)
  show ?case
  proof (cases "strncmp0 a ''conf='' 5")
    case True
    then show ?thesis using Cons [of c "Some (drop 5 a)"] by simp
  next
    case False
    obtain c1 t1 where 1: "cfg_load_arg_debug os c a = (c1, t1)"
      by (cases "cfg_load_arg_debug os c a")
    show ?thesis using False 1 Cons [of c1 cp]
      by (cases "early_scan os c1 cp as";
          cases "early_scan os c1 None (filter (\<lambda>a. \<not> strncmp0 a ''conf='' 5) as)") simp
  qed
qed

lemma cfg_init_depends:
  assumes f: "filter (\<lambda>a. \<not> strncmp0 a ''conf='' 5) argv
      = filter (\<lambda>a. \<not> strncmp0 a ''conf='' 5) argv'"
    and l: "last_assigned (arg_value ''conf='') argv = last_assigned (arg_value ''conf='') argv'"
  shows "cfg_init os c0 argv = cfg_init os c0 argv'"
proof -
  obtain c1 cp t1 where e: "early_scan os (cfg_reset c0) None argv = ((c1, cp), t1)"
    by (metis surj_pair)
  obtain c1' cp' t1' where e': "early_scan os (cfg_reset c0) None argv' = ((c1', cp'), t1')"
    by (metis surj_pair)
  have 1: "cp = cp'"
    using early_scan_path [of os "cfg_reset c0" None argv]
      early_scan_path [of os "cfg_reset c0" None argv'] e e' l by simp
  have 2: "c1 = c1' \<and> t1 = t1'"
    using early_scan_rest [of os "cfg_reset c0" None argv]
      early_scan_rest [of os "cfg_reset c0" None argv'] e e' f by simp
  show ?thesis unfolding cfg_init_def full_scan_tokens f e e' using 1 2 by simp
qed

lemma last_assigned_append:
  "last_assigned g (xs @ ys)
     = (case last_assigned g ys of Some v \<Rightarrow> Some v | None \<Rightarrow> last_assigned g xs)"
  by (induction xs) (auto split: option.splits)

lemma last_assigned_ex:
  "list_ex (\<lambda>y. g y \<noteq> None) ys \<Longrightarrow> last_assigned g ys \<noteq> None"
  by (induction ys) (auto split: option.splits)

lemma init_return_code:
  "fst (fst (cfg_init os c0 argv))
     = fst (fst (cfg_load_defaults os (fst (fst (early_scan os (cfg_reset c0) None argv)))
          (last_assigned (arg_value ''conf='') argv)))"
proof -
  obtain c1 cp t1 where e: "early_scan os (cfg_reset c0) None argv = ((c1, cp), t1)"
    by (metis surj_pair)
  obtain r c2 t2 where d: "cfg_load_defaults os c1 cp = ((r, c2), t2)"
    by (metis surj_pair)
  have cp: "cp = last_assigned (arg_value ''conf='') argv"
    using early_scan_path [of os "cfg_reset c0" None argv] e
    by (simp add: pick_def split: option.splits)
  have "fst (fst (cfg_init os c0 argv)) = r"
    by (simp add: cfg_init_def e d Let_def cfg_free_def split: prod.splits)
  then show ?thesis using e d cp by simp
qed

text \<open>
  Claim C10. The path that \<open>cfg_init\<close> passes to \<open>cfg_load_defaults\<close> is the value of the
  last \<^verbatim>\<open>conf=\<close> argument (none, hence the default path, when there is no such
  argument): the return code and the record of the file phase are those of
  \<open>cfg_load_defaults\<close> on that path. A \<^verbatim>\<open>conf=\<close> argument that is followed by another one
  has no effect: without it, \<open>cfg_init\<close> returns the same code and the same record.
\<close>

theorem last_conf_wins:
  "fst (fst (cfg_init os c0 argv))
     = fst (fst (cfg_load_defaults os (fst (fst (early_scan os (cfg_reset c0) None argv)))
          (last_assigned (arg_value ''conf='') argv)))
   \<and> after_file os c0 argv
     = snd (fst (cfg_load_defaults os (fst (fst (early_scan os (cfg_reset c0) None argv)))
          (last_assigned (arg_value ''conf='') argv)))
   \<and> (strncmp0 a ''conf='' 5 \<and> list_ex (\<lambda>y. strncmp0 y ''conf='' 5) ys
        \<longrightarrow> fst (cfg_init os c0 (xs @ a # ys)) = fst (cfg_init os c0 (xs @ ys)))"
proof -
  have 1: "after_file os c0 argv
     = snd (fst (cfg_load_defaults os (fst (fst (early_scan os (cfg_reset c0) None argv)))
          (last_assigned (arg_value ''conf='') argv)))"
    using early_scan_path [of os "cfg_reset c0" None argv]
    by (cases "early_scan os (cfg_reset c0) None argv")
      (auto simp: after_file_def pick_def split: option.splits)
  have 2: "cfg_init os c0 (xs @ a # ys) = cfg_init os c0 (xs @ ys)"
    if a: "strncmp0 a ''conf='' 5" and ys: "list_ex (\<lambda>y. strncmp0 y ''conf='' 5) ys"
  proof (rule cfg_init_depends)
    show "filter (\<lambda>a. \<not> strncmp0 a ''conf='' 5) (xs @ a # ys)
        = filter (\<lambda>a. \<not> strncmp0 a ''conf='' 5) (xs @ ys)"
      using a by simp
    have "list_ex (\<lambda>y. arg_value ''conf='' y \<noteq> None) ys"
      using ys by (simp add: arg_value_conf list_ex_iff)
    then have "last_assigned (arg_value ''conf='') ys \<noteq> None" by (rule last_assigned_ex)
    then show "last_assigned (arg_value ''conf='') (xs @ a # ys)
        = last_assigned (arg_value ''conf='') (xs @ ys)"
      by (auto simp: last_assigned_append split: option.splits)
  qed
  show ?thesis using init_return_code [of os c0 argv] 1 2 by simp
qed

theorem last_conf_wins_witness:
  "fst (cfg_init (os_example 0x41ED 0x41ED (Some ''cue''))
      cfg_stale [''conf=/missing'', ''conf=/etc/u2f.conf''])
     = fst (cfg_init (os_example 0x41ED 0x41ED (Some ''cue'')) cfg_stale
         [''conf=/etc/u2f.conf''])
   \<and> last_assigned (arg_value ''conf='') [''conf=/missing'', ''conf=/etc/u2f.conf'']
     = Some ''/etc/u2f.conf''"
proof -
  have 1: "strncmp0 ''conf=/missing'' ''conf='' 5
      \<and> list_ex (\<lambda>y. strncmp0 y ''conf='' 5) [''conf=/etc/u2f.conf'']"
    by (simp add: strncmp0_def)
  have 2: "last_assigned (arg_value ''conf='') [''conf=/missing'', ''conf=/etc/u2f.conf'']
     = Some ''/etc/u2f.conf''"
    by (simp add: arg_value_def)
  show ?thesis
    using last_conf_wins [where a = "''conf=/missing''" and ys = "[''conf=/etc/u2f.conf'']"
        and xs = "[]" and os = "os_example 0x41ED 0x41ED (Some ''cue'')" and ?c0.0 = cfg_stale]
      1 2
    by simp
qed

subsection \<open>The secure open\<close>


lemma walk_writable:
  assumes "p # cs = pre @ post" "pre \<noteq> []" "post \<noteq> []"
    and "lookup os parent pre = Inr d" "sys_fstat os d = Some st" "group_or_other_writable st"
  shows "fst (walk os parent p cs) = Inl PAM_SERVICE_ERR"
  using assms
proof (induction pre arbitrary: parent p cs)
  case Nil
  then show ?case by simp
next
  case (Cons n pre)
  from Cons.prems(1) have p: "p = n" and cs: "cs = pre @ post" by simp_all
  obtain fd1 where o: "sys_openat os parent n [O_RDONLY, O_CLOEXEC, O_DIRECTORY] = Inr fd1"
    and l: "lookup os fd1 pre = Inr d"
    using Cons.prems(4) by (auto split: sum.splits)
  have "cs \<noteq> []" using cs Cons.prems(3) by simp
  then obtain c cs' where c: "cs = c # cs'" by (cases cs) auto
  show ?case
  proof (cases pre)
    case Nil
    then have "fd1 = d" using l by simp
    then show ?thesis using o p c Cons.prems(5,6)
      by (simp add: group_or_other_writable_def)
  next
    case (Cons n' pre')
    have "fst (walk os fd1 c cs') = Inl PAM_SERVICE_ERR"
      using Cons.IH [of c cs' fd1] c cs l Cons.prems(3,5,6) Cons by simp
    then show ?thesis using o p c
      by (cases "walk os fd1 c cs'") (simp split: option.splits)
  qed
qed

lemma open_leaf_success:
  assumes "fst (open_leaf os parent p) = Inr (Some fd, sz)"
  shows "\<exists>st. sys_openat os parent p [O_RDONLY, O_CLOEXEC, O_NOCTTY, O_NOFOLLOW] = Inr fd
          \<and> sys_fstat os fd = Some st \<and> trusted_file os st \<and> sz = st_size st"
  using assms
  by (auto simp: open_leaf_def trusted_file_def group_or_other_writable_def
      split: sum.splits option.splits if_splits)

lemma walk_step_success:
  assumes "fst (walk os parent p (c # cs)) = Inr (Some fd, sz)"
  shows "\<exists>fd1 st. sys_openat os parent p [O_RDONLY, O_CLOEXEC, O_DIRECTORY] = Inr fd1
          \<and> sys_fstat os fd1 = Some st \<and> trusted_dir os st
          \<and> fst (walk os fd1 c cs) = Inr (Some fd, sz)"
  using assms
  by (auto simp: trusted_dir_def group_or_other_writable_def
      split: sum.splits option.splits if_splits prod.splits)

lemma walk_success_dirs:
  assumes "fst (walk os parent p cs) = Inr (Some fd, sz)"
    and "p # cs = pre @ post" "pre \<noteq> []" "post \<noteq> []"
  shows "\<exists>d st. lookup os parent pre = Inr d \<and> sys_fstat os d = Some st \<and> trusted_dir os st"
  using assms
proof (induction pre arbitrary: parent p cs)
  case Nil
  then show ?case by simp
next
  case (Cons n pre)
  from Cons.prems(2) have p: "p = n" and cs: "cs = pre @ post" by simp_all
  have "cs \<noteq> []" using cs Cons.prems(4) by simp
  then obtain c cs' where c: "cs = c # cs'" by (cases cs) auto
  obtain fd1 st1 where o: "sys_openat os parent p [O_RDONLY, O_CLOEXEC, O_DIRECTORY] = Inr fd1"
    and s: "sys_fstat os fd1 = Some st1" and t: "trusted_dir os st1"
    and w: "fst (walk os fd1 c cs') = Inr (Some fd, sz)"
    using walk_step_success [OF Cons.prems(1) [unfolded c]] by blast
  show ?case
  proof (cases pre)
    case Nil
    then show ?thesis using o s t p by simp
  next
    case (Cons n' pre')
    then show ?thesis using Cons.IH [OF w] c cs Cons.prems(4) o p by simp
  qed
qed

lemma walk_success_leaf:
  assumes "fst (walk os parent p cs) = Inr (Some fd, sz)"
  shows "\<exists>d st. lookup os parent (butlast (p # cs)) = Inr d
          \<and> sys_openat os d (last (p # cs)) [O_RDONLY, O_CLOEXEC, O_NOCTTY, O_NOFOLLOW] = Inr fd
          \<and> sys_fstat os fd = Some st \<and> trusted_file os st \<and> sz = st_size st"
  using assms
proof (induction cs arbitrary: parent p)
  case Nil
  then show ?case using open_leaf_success [of os parent p fd sz] by simp
next
  case (Cons c cs)
  obtain fd1 where o: "sys_openat os parent p [O_RDONLY, O_CLOEXEC, O_DIRECTORY] = Inr fd1"
    and w: "fst (walk os fd1 c cs) = Inr (Some fd, sz)"
    using walk_step_success [OF Cons.prems] by blast
  show ?case using Cons.IH [OF w] o by simp
qed


lemma open_safely_Inr:
  assumes "fst (open_safely os path) = Inr x"
  shows "\<exists>root p cs. sys_open os ''/'' [O_RDONLY, O_CLOEXEC, O_DIRECTORY, O_NOFOLLOW] = Inr root
          \<and> strtok_all ''/'' path = p # cs \<and> fst (walk os root p cs) = Inr x"
  using assms
  by (auto simp: open_safely_def split: if_splits sum.splits list.splits prod.splits)

lemma open_safely_walk:
  assumes "sys_open os ''/'' [O_RDONLY, O_CLOEXEC, O_DIRECTORY, O_NOFOLLOW] = Inr root"
    and "strtok_all ''/'' path = p # cs" and "fst (walk os root p cs) = Inl PAM_SERVICE_ERR"
  shows "fst (open_safely os path)
           = Inl (if path = [] \<or> hd path \<noteq> CHR ''/'' \<or> last path = CHR ''/''
                  then PAM_SERVICE_ERR
                  else if \<not> sys_strdup os path then PAM_BUF_ERR else PAM_SERVICE_ERR)"
  using assms by (cases "walk os root p cs") (simp add: open_safely_def)

text \<open>
  Claim C1, as stated, fails at the root: \<open>open_safely\<close> opens \<^verbatim>\<open>/\<close> and never inspects
  its metadata. In the example file system with a root directory of mode 0777, writable
  by group and others, \<^verbatim>\<open>/etc/u2f.conf\<close> is opened successfully.
\<close>

theorem root_is_not_checked:
  "sys_open (os_example 0x41FF 0x41ED (Some ''cue'')) ''/''
       [O_RDONLY, O_CLOEXEC, O_DIRECTORY, O_NOFOLLOW] = Inr 3
   \<and> sys_fstat (os_example 0x41FF 0x41ED (Some ''cue'')) 3
       = Some \<lparr>st_uid = 0, st_mode = 0x41FF, st_size = 4096\<rparr>
   \<and> group_or_other_writable \<lparr>st_uid = 0, st_mode = 0x41FF, st_size = 4096\<rparr>
   \<and> fst (open_safely (os_example 0x41FF 0x41ED (Some ''cue'')) ''/etc/u2f.conf'')
       = Inr (Some 5, 3)"
  by (simp add: open_safely_def os_example_def strtok_all.simps strtok_r_def open_leaf_def
      S_ISDIR_def S_ISREG_def S_ISLNK_def S_IFMT_def S_IFDIR_def S_IFREG_def S_IFLNK_def
      S_IWGRP_def S_IWOTH_def group_or_other_writable_def split: prod.splits)

text \<open>
  Claim C1, amended. When \<open>open_safely\<close> returns an open file, every component of the path
  below the root satisfies the trust predicate on the descriptor it was opened on: each
  ancestor directory (a non-empty proper prefix of the components) is a trusted directory,
  and the last component is a trusted regular file whose size is the one returned. When
  some ancestor directory below the root is writable by group or others, \<open>open_safely\<close>
  fails, whatever the file itself is like: with \<open>PAM_SERVICE_ERR\<close>, or with \<open>PAM_BUF_ERR\<close>
  when the copy of the path cannot be allocated.
\<close>

theorem open_safely_checks_components:
  "(fst (open_safely os path) = Inr (Some fd, sz) \<longrightarrow>
      (\<exists>root. sys_open os ''/'' [O_RDONLY, O_CLOEXEC, O_DIRECTORY, O_NOFOLLOW] = Inr root
         \<and> (\<forall>pre post. strtok_all ''/'' path = pre @ post \<and> pre \<noteq> [] \<and> post \<noteq> [] \<longrightarrow>
               (\<exists>d st. lookup os root pre = Inr d \<and> sys_fstat os d = Some st
                  \<and> trusted_dir os st))
         \<and> (\<exists>d st. lookup os root (butlast (strtok_all ''/'' path)) = Inr d
               \<and> sys_openat os d (last (strtok_all ''/'' path))
                    [O_RDONLY, O_CLOEXEC, O_NOCTTY, O_NOFOLLOW] = Inr fd
               \<and> sys_fstat os fd = Some st \<and> trusted_file os st \<and> sz = st_size st)))
   \<and> (sys_open os ''/'' [O_RDONLY, O_CLOEXEC, O_DIRECTORY, O_NOFOLLOW] = Inr root
        \<and> strtok_all ''/'' path = pre @ post \<and> pre \<noteq> [] \<and> post \<noteq> []
        \<and> lookup os root pre = Inr d \<and> sys_fstat os d = Some st
        \<and> group_or_other_writable st \<longrightarrow>
      (fst (open_safely os path) = Inl PAM_SERVICE_ERR
         \<or> fst (open_safely os path) = Inl PAM_BUF_ERR)
      \<and> (sys_strdup os path \<longrightarrow> fst (open_safely os path) = Inl PAM_SERVICE_ERR))"
proof (intro conjI impI)
  assume a: "fst (open_safely os path) = Inr (Some fd, sz)"
  then obtain root p cs
    where r: "sys_open os ''/'' [O_RDONLY, O_CLOEXEC, O_DIRECTORY, O_NOFOLLOW] = Inr root"
      and t: "strtok_all ''/'' path = p # cs"
      and w: "fst (walk os root p cs) = Inr (Some fd, sz)"
    using open_safely_Inr by blast
  have "\<forall>pre post. strtok_all ''/'' path = pre @ post \<and> pre \<noteq> [] \<and> post \<noteq> [] \<longrightarrow>
      (\<exists>d st. lookup os root pre = Inr d \<and> sys_fstat os d = Some st \<and> trusted_dir os st)"
    using walk_success_dirs [OF w] t by metis
  moreover have "\<exists>d st. lookup os root (butlast (strtok_all ''/'' path)) = Inr d
      \<and> sys_openat os d (last (strtok_all ''/'' path))
           [O_RDONLY, O_CLOEXEC, O_NOCTTY, O_NOFOLLOW] = Inr fd
      \<and> sys_fstat os fd = Some st \<and> trusted_file os st \<and> sz = st_size st"
    using walk_success_leaf [OF w] t by simp
  ultimately show "\<exists>root. sys_open os ''/'' [O_RDONLY, O_CLOEXEC, O_DIRECTORY, O_NOFOLLOW] = Inr root
         \<and> (\<forall>pre post. strtok_all ''/'' path = pre @ post \<and> pre \<noteq> [] \<and> post \<noteq> [] \<longrightarrow>
               (\<exists>d st. lookup os root pre = Inr d \<and> sys_fstat os d = Some st
                  \<and> trusted_dir os st))
         \<and> (\<exists>d st. lookup os root (butlast (strtok_all ''/'' path)) = Inr d
               \<and> sys_openat os d (last (strtok_all ''/'' path))
                    [O_RDONLY, O_CLOEXEC, O_NOCTTY, O_NOFOLLOW] = Inr fd
               \<and> sys_fstat os fd = Some st \<and> trusted_file os st \<and> sz = st_size st)"
    using r by blast
next
  assume b: "sys_open os ''/'' [O_RDONLY, O_CLOEXEC, O_DIRECTORY, O_NOFOLLOW] = Inr root
        \<and> strtok_all ''/'' path = pre @ post \<and> pre \<noteq> [] \<and> post \<noteq> []
        \<and> lookup os root pre = Inr d \<and> sys_fstat os d = Some st
        \<and> group_or_other_writable st"
  then obtain p cs where t: "strtok_all ''/'' path = p # cs" and pc: "p # cs = pre @ post"
    by (cases "strtok_all ''/'' path") auto
  have w: "fst (walk os root p cs) = Inl PAM_SERVICE_ERR"
    using walk_writable [OF pc] b by blast
  have o: "fst (open_safely os path)
           = Inl (if path = [] \<or> hd path \<noteq> CHR ''/'' \<or> last path = CHR ''/''
                  then PAM_SERVICE_ERR
                  else if \<not> sys_strdup os path then PAM_BUF_ERR else PAM_SERVICE_ERR)"
    using open_safely_walk [OF _ t w] b by blast
  show "fst (open_safely os path) = Inl PAM_SERVICE_ERR
      \<or> fst (open_safely os path) = Inl PAM_BUF_ERR"
    unfolding o by simp
  show "fst (open_safely os path) = Inl PAM_SERVICE_ERR" if "sys_strdup os path"
    unfolding o using that by simp
qed

lemma example_tokens: "strtok_all ''/'' ''/etc/u2f.conf'' = [''etc''] @ [''u2f.conf'']"
  by (simp add: strtok_all.simps strtok_r_def)

theorem open_safely_checks_components_witness:
  "group_or_other_writable \<lparr>st_uid = 0, st_mode = 0x41FD, st_size = 4096\<rparr>
   \<and> fst (open_safely (os_example 0x41ED 0x41FD (Some ''cue'')) ''/etc/u2f.conf'')
       = Inl PAM_SERVICE_ERR"
proof -
  let ?os = "os_example 0x41ED 0x41FD (Some ''cue'')"
  let ?st = "\<lparr>st_uid = 0, st_mode = 0x41FD, st_size = 4096\<rparr>"
  have 1: "sys_open ?os ''/'' [O_RDONLY, O_CLOEXEC, O_DIRECTORY, O_NOFOLLOW] = Inr 3"
    by (simp add: os_example_def)
  have 2: "lookup ?os 3 [''etc''] = Inr 4" by (simp add: os_example_def)
  have 3: "sys_fstat ?os 4 = Some ?st" by (simp add: os_example_def)
  have 4: "group_or_other_writable ?st"
    by (simp add: group_or_other_writable_def S_IWGRP_def S_IWOTH_def)
  have 5: "sys_strdup ?os ''/etc/u2f.conf''" by (simp add: os_example_def)
  have 6: "[''etc''] \<noteq> [] \<and> [''u2f.conf''] \<noteq> []" by simp
  show ?thesis
    using open_safely_checks_components [where os = ?os and path = "''/etc/u2f.conf''"
        and root = 3 and pre = "[''etc'']" and post = "[''u2f.conf'']" and d = 4 and st = ?st]
      1 2 3 4 5 6 example_tokens
    by blast
qed

subsection \<open>The bounded read\<close>

lemma walk_trace_no_buffer:
  "walk os parent p cs = (r, tr) \<Longrightarrow> Acquire RFileBuffer \<notin> set tr"
proof (induction cs arbitrary: parent p r tr)
  case Nil
  then show ?case
    by (auto simp: open_leaf_def split: sum.splits option.splits if_splits)
next
  case (Cons c cs)
  show ?case using Cons.prems
    by (auto split: sum.splits option.splits if_splits prod.splits dest: Cons.IH)
qed

lemma open_safely_trace_no_buffer:
  "open_safely os path = (r, tr) \<Longrightarrow> Acquire RFileBuffer \<notin> set tr"
  by (auto simp: open_safely_def split: sum.splits list.splits if_splits prod.splits
      dest: walk_trace_no_buffer)

lemma slurp_oversize:
  "cfg_max_file_size os < to_read \<Longrightarrow> slurp os fd to_read = (Inl PAM_SERVICE_ERR, [])"
  by (simp add: slurp_def)

lemma cfg_load_defaults_oversize:
  assumes "fst (open_safely os (case cp of Some p \<Rightarrow> p | None \<Rightarrow> cfg_default_path os))
             = Inr (Some fd, fsize)"
    and "cfg_max_file_size os < fsize"
  shows "fst (cfg_load_defaults os c cp) = (PAM_SERVICE_ERR, c)
    \<and> Acquire RFileBuffer \<notin> set (snd (cfg_load_defaults os c cp))"
proof -
  let ?path = "case cp of Some p \<Rightarrow> p | None \<Rightarrow> cfg_default_path os"
  obtain tr where o: "open_safely os ?path = (Inr (Some fd, fsize), tr)"
    using assms(1) by (cases "open_safely os ?path") simp
  have "Acquire RFileBuffer \<notin> set tr" using open_safely_trace_no_buffer [OF o] .
  then show ?thesis using assms(2) o by (simp add: cfg_load_defaults_def slurp_oversize)
qed

text \<open>
  Claim C5. For a size above \<^verbatim>\<open>CFG_MAX_FILE_SIZE\<close>, \<open>slurp\<close> fails (the code it returns
  for the exceeded limit is \<open>PAM_SERVICE_ERR\<close>) and has had no effect when it does: no
  buffer was allocated. So \<open>cfg_load_defaults\<close> fails on a file whose size, as
  \<open>open_safely\<close> reports it, is above the limit, leaves the record as it was, and has
  allocated no file buffer.
\<close>

theorem oversize_fails_before_allocation:
  "(cfg_max_file_size os < to_read \<longrightarrow> slurp os fd to_read = (Inl PAM_SERVICE_ERR, []))
   \<and> (fst (open_safely os (case cp of Some p \<Rightarrow> p | None \<Rightarrow> cfg_default_path os))
          = Inr (Some fd, fsize) \<and> cfg_max_file_size os < fsize
        \<longrightarrow> fst (cfg_load_defaults os c cp) = (PAM_SERVICE_ERR, c)
            \<and> Acquire RFileBuffer \<notin> set (snd (cfg_load_defaults os c cp)))"
  using slurp_oversize cfg_load_defaults_oversize by blast

theorem oversize_fails_before_allocation_witness:
  "cfg_max_file_size (os_example 0x41ED 0x41ED (Some (replicate 4097 (CHR ''#'')))) < 4097
   \<and> slurp (os_example 0x41ED 0x41ED (Some (replicate 4097 (CHR ''#'')))) 5 4097
       = (Inl PAM_SERVICE_ERR, [])
   \<and> fst (open_safely (os_example 0x41ED 0x41ED (Some (replicate 4097 (CHR ''#''))))
            ''/etc/u2f.conf'') = Inr (Some 5, 4097)
   \<and> fst (cfg_load_defaults (os_example 0x41ED 0x41ED (Some (replicate 4097 (CHR ''#''))))
            cfg_stale None) = (PAM_SERVICE_ERR, cfg_stale)
   \<and> Acquire RFileBuffer
       \<notin> set (snd (cfg_load_defaults
                    (os_example 0x41ED 0x41ED (Some (replicate 4097 (CHR ''#''))))
                    cfg_stale None))"
proof -
  let ?os = "os_example 0x41ED 0x41ED (Some (replicate 4097 (CHR ''#'')))"
  have 1: "cfg_max_file_size ?os < 4097"
    by (simp add: os_example_def)
  have 2: "fst (open_safely ?os (case None of Some p \<Rightarrow> p | None \<Rightarrow> cfg_default_path ?os))
             = Inr (Some 5, 4097)"
    by code_simp
  have 3: "fst (open_safely ?os ''/etc/u2f.conf'') = Inr (Some 5, 4097)"
    by code_simp
  show ?thesis
    using oversize_fails_before_allocation [where os = ?os
        and to_read = 4097 and fd = 5 and cp = None and fsize = 4097 and c = cfg_stale] 1 2 3
    by blast
qed

subsection \<open>A configuration path that is absent\<close>

lemma walk_absent:
  assumes "p # cs = pre @ n # post"
    and "\<forall>pre1 post1. pre = pre1 @ post1 \<and> pre1 \<noteq> [] \<longrightarrow>
           (\<exists>d st. lookup os parent pre1 = Inr d \<and> sys_fstat os d = Some st \<and> trusted_dir os st)"
    and "lookup os parent pre = Inr d"
    and "sys_openat os d n (if post = [] then [O_RDONLY, O_CLOEXEC, O_NOCTTY, O_NOFOLLOW]
           else [O_RDONLY, O_CLOEXEC, O_DIRECTORY]) = Inl ENOENT"
  shows "fst (walk os parent p cs) = Inr (None, 0)"
  using assms
proof (induction pre arbitrary: parent p cs)
  case Nil
  then have p: "p = n" "cs = post" "d = parent" by simp_all
  show ?case
  proof (cases post)
    case Nil
    then show ?thesis using p Nil.prems(4) by (simp add: open_leaf_def)
  next
    case (Cons c cs')
    then show ?thesis using p Nil.prems(4) by simp
  qed
next
  case (Cons m pre)
  from Cons.prems(1) have p: "p = m" and cs: "cs = pre @ n # post" by simp_all
  have "cs \<noteq> []" using cs by simp
  then obtain c cs' where c: "cs = c # cs'" by (cases cs) auto
  obtain fd1 where o: "sys_openat os parent m [O_RDONLY, O_CLOEXEC, O_DIRECTORY] = Inr fd1"
    and l: "lookup os fd1 pre = Inr d"
    using Cons.prems(3) by (auto split: sum.splits)
  have "\<exists>d st. lookup os parent [m] = Inr d \<and> sys_fstat os d = Some st \<and> trusted_dir os st"
    using Cons.prems(2) by (metis append_Cons append_Nil list.distinct(1))
  then obtain st where s: "sys_fstat os fd1 = Some st" and t: "trusted_dir os st"
    using o by auto
  have pre: "\<forall>pre1 post1. pre = pre1 @ post1 \<and> pre1 \<noteq> [] \<longrightarrow>
           (\<exists>d st. lookup os fd1 pre1 = Inr d \<and> sys_fstat os d = Some st \<and> trusted_dir os st)"
  proof (intro allI impI)
    fix pre1 post1 assume a: "pre = pre1 @ post1 \<and> pre1 \<noteq> []"
    then have "m # pre = (m # pre1) @ post1 \<and> m # pre1 \<noteq> []" by simp
    then have "\<exists>d st. lookup os parent (m # pre1) = Inr d \<and> sys_fstat os d = Some st
        \<and> trusted_dir os st"
      using Cons.prems(2) by blast
    then show "\<exists>d st. lookup os fd1 pre1 = Inr d \<and> sys_fstat os d = Some st \<and> trusted_dir os st"
      using o by simp
  qed
  have "fst (walk os fd1 c cs') = Inr (None, 0)"
    using Cons.IH [OF _ pre l Cons.prems(4), of c cs'] c cs by simp
  then show ?case using p c o s t
    by (cases "walk os fd1 c cs'")
      (simp add: trusted_dir_def group_or_other_writable_def)
qed


lemma open_safely_absent:
  assumes v: "path \<noteq> [] \<and> hd path = CHR ''/'' \<and> last path \<noteq> CHR ''/''" "sys_strdup os path"
    and r: "sys_open os ''/'' [O_RDONLY, O_CLOEXEC, O_DIRECTORY, O_NOFOLLOW] = Inr root"
    and t: "strtok_all ''/'' path = pre @ n # post"
    and tr: "\<forall>pre1 post1. pre = pre1 @ post1 \<and> pre1 \<noteq> [] \<longrightarrow>
           (\<exists>d st. lookup os root pre1 = Inr d \<and> sys_fstat os d = Some st \<and> trusted_dir os st)"
    and l: "lookup os root pre = Inr d"
    and e: "sys_openat os d n (if post = [] then [O_RDONLY, O_CLOEXEC, O_NOCTTY, O_NOFOLLOW]
           else [O_RDONLY, O_CLOEXEC, O_DIRECTORY]) = Inl ENOENT"
  shows "fst (open_safely os path) = Inr (None, 0)"
proof -
  obtain p cs where pc: "strtok_all ''/'' path = p # cs" "p # cs = pre @ n # post"
    using t by (cases "strtok_all ''/'' path") auto
  have "fst (walk os root p cs) = Inr (None, 0)" using walk_absent [OF pc(2) tr l e] .
  then show ?thesis using v r pc(1)
    by (cases "walk os root p cs") (simp add: open_safely_def)
qed

lemma cfg_load_defaults_absent:
  assumes "fst (open_safely os (case cp of Some p \<Rightarrow> p | None \<Rightarrow> cfg_default_path os))
      = Inr (None, sz)"
  shows "fst (cfg_load_defaults os c cp)
      = (if cp \<noteq> None then PAM_SERVICE_ERR else PAM_SUCCESS, c)"
proof -
  let ?path = "case cp of Some p \<Rightarrow> p | None \<Rightarrow> cfg_default_path os"
  obtain tr where o: "open_safely os ?path = (Inr (None, sz), tr)"
    using assms by (cases "open_safely os ?path") simp
  show ?thesis using o by (simp add: cfg_load_defaults_def)
qed

text \<open>
  Claim C3, as stated, fails for a default path that does not exist below a directory
  that is not trusted: in the example file system with \<^verbatim>\<open>/etc\<close> of mode 0775 and no
  \<^verbatim>\<open>/etc/u2f.conf\<close>, loading from the default path fails with \<open>PAM_SERVICE_ERR\<close>.
\<close>

theorem missing_default_below_untrusted_directory:
  "lookup (os_example 0x41ED 0x41FD None) 3 [''etc''] = Inr 4
   \<and> sys_openat (os_example 0x41ED 0x41FD None) 4 ''u2f.conf''
        [O_RDONLY, O_CLOEXEC, O_NOCTTY, O_NOFOLLOW] = Inl ENOENT
   \<and> cfg_default_path (os_example 0x41ED 0x41FD None) = ''/etc/u2f.conf''
   \<and> fst (cfg_load_defaults (os_example 0x41ED 0x41FD None) cfg_stale None)
        = (PAM_SERVICE_ERR, cfg_stale)"
  by (simp add: cfg_load_defaults_def open_safely_def os_example_def strtok_all.simps
      strtok_r_def open_leaf_def
      S_ISDIR_def S_ISREG_def S_ISLNK_def S_IFMT_def S_IFDIR_def S_IFREG_def S_IFLNK_def
      S_IWGRP_def S_IWOTH_def split: prod.splits)

text \<open>
  Claim C3, amended. When \<open>open_safely\<close> reports the path absent, loading from an explicit
  path fails with \<open>PAM_SERVICE_ERR\<close> and loading from the default path succeeds, and the
  record is as it was in both cases. \<open>open_safely\<close> reports a well-formed path absent when
  one of its components is not found (\<^verbatim>\<open>ENOENT\<close>) and every component before it is a
  trusted directory.
\<close>

theorem absent_path:
  "(fst (open_safely os p) = Inr (None, sz)
      \<longrightarrow> fst (cfg_load_defaults os c (Some p)) = (PAM_SERVICE_ERR, c))
   \<and> (fst (open_safely os (cfg_default_path os)) = Inr (None, sz)
      \<longrightarrow> fst (cfg_load_defaults os c None) = (PAM_SUCCESS, c))
   \<and> (path \<noteq> [] \<and> hd path = CHR ''/'' \<and> last path \<noteq> CHR ''/'' \<and> sys_strdup os path
        \<and> sys_open os ''/'' [O_RDONLY, O_CLOEXEC, O_DIRECTORY, O_NOFOLLOW] = Inr root
        \<and> strtok_all ''/'' path = pre @ n # post
        \<and> (\<forall>pre1 post1. pre = pre1 @ post1 \<and> pre1 \<noteq> [] \<longrightarrow>
             (\<exists>d st. lookup os root pre1 = Inr d \<and> sys_fstat os d = Some st
                \<and> trusted_dir os st))
        \<and> lookup os root pre = Inr d
        \<and> sys_openat os d n
             (if post = [] then [O_RDONLY, O_CLOEXEC, O_NOCTTY, O_NOFOLLOW]
              else [O_RDONLY, O_CLOEXEC, O_DIRECTORY]) = Inl ENOENT
      \<longrightarrow> fst (open_safely os path) = Inr (None, 0))"
  using cfg_load_defaults_absent [of os "Some p" sz c] cfg_load_defaults_absent [of os None sz c]
    open_safely_absent [of path os root pre n post d]
  by simp

lemma example_absent:
  "fst (open_safely (os_example 0x41ED 0x41ED None) ''/etc/u2f.conf'') = Inr (None, 0)"
  by (simp add: open_safely_def os_example_def strtok_all.simps strtok_r_def open_leaf_def
      S_ISDIR_def S_ISREG_def S_ISLNK_def S_IFMT_def S_IFDIR_def S_IFREG_def S_IFLNK_def
      S_IWGRP_def S_IWOTH_def split: prod.splits)

theorem absent_path_witness:
  "fst (cfg_load_defaults (os_example 0x41ED 0x41ED None) cfg_stale (Some ''/etc/u2f.conf''))
     = (PAM_SERVICE_ERR, cfg_stale)
   \<and> fst (cfg_load_defaults (os_example 0x41ED 0x41ED None) cfg_stale None)
     = (PAM_SUCCESS, cfg_stale)"
proof -
  have p: "cfg_default_path (os_example 0x41ED 0x41ED None) = ''/etc/u2f.conf''"
    by (simp add: os_example_def)
  show ?thesis
    using absent_path [where os = "os_example 0x41ED 0x41ED None" and p = "''/etc/u2f.conf''"
        and sz = 0 and c = cfg_stale] example_absent p
    by simp
qed

subsection \<open>Resources acquired and released\<close>

lemma held_append: "held r (t1 @ t2) n = Option.bind (held r t1 n) (held r t2)"
  by (induction t1 arbitrary: n) auto

lemma held_append_Some: "held r t1 n = Some m \<Longrightarrow> held r (t1 @ t2) n = held r t2 m"
  by (simp add: held_append)

lemma open_leaf_held:
  assumes "open_leaf os parent p = (res, tr)"
  shows "held r tr (n + of_bool (r = RFd parent)) = Some (n + of_bool (returns_fd res r))"
  using assms
  by (auto simp: open_leaf_def returns_fd_def split: sum.splits option.splits if_splits)

lemma walk_held:
  "walk os parent p cs = (res, tr) \<Longrightarrow>
   held r tr (n + of_bool (r = RFd parent)) = Some (n + of_bool (returns_fd res r))"
proof (induction cs arbitrary: parent p res tr)
  case Nil
  then show ?case using open_leaf_held by simp
next
  case (Cons c cs)
  show ?case
  proof (cases "sys_openat os parent p [O_RDONLY, O_CLOEXEC, O_DIRECTORY]")
    case (Inl e)
    then show ?thesis using Cons.prems by (auto simp: returns_fd_def split: if_splits)
  next
    case (Inr fd)
    show ?thesis
    proof (cases "sys_fstat os fd")
      case None
      then show ?thesis using Cons.prems Inr by (auto simp: returns_fd_def)
    next
      case (Some st)
      show ?thesis
      proof (cases "(\<not> testing os \<and> st_uid st \<noteq> 0)
          \<or> (\<not> (S_ISDIR (st_mode st) \<or> S_ISLNK (st_mode st))
              \<or> st_mode st AND (S_IWGRP OR S_IWOTH) \<noteq> 0)")
        case True
        then have "res = Inl PAM_SERVICE_ERR"
          "tr = [Acquire (RFd fd), Release (RFd parent), Release (RFd fd)]"
          using Cons.prems Inr Some by (auto split: if_splits)
        then show ?thesis by (auto simp: returns_fd_def)
      next
        case False
        obtain res1 tr1 where w: "walk os fd c cs = (res1, tr1)" by (cases "walk os fd c cs")
        have tr: "tr = [Acquire (RFd fd), Release (RFd parent)] @ tr1" and res: "res = res1"
          using Cons.prems Inr Some False w by auto
        have "held r [Acquire (RFd fd), Release (RFd parent)] (n + of_bool (r = RFd parent))
            = Some (n + of_bool (r = RFd fd))"
          by auto
        then show ?thesis unfolding tr res using Cons.IH [OF w]
          by (simp only: held_append_Some)
      qed
    qed
  qed
qed

lemma open_safely_held:
  assumes "open_safely os path = (res, tr)"
  shows "held r tr n = Some (n + of_bool (returns_fd res r))"
proof (cases "path = [] \<or> hd path \<noteq> CHR ''/'' \<or> last path = CHR ''/'' \<or> \<not> sys_strdup os path")
  case True
  then show ?thesis using assms by (auto simp: open_safely_def returns_fd_def split: if_splits)
next
  case False
  show ?thesis
  proof (cases "sys_open os ''/'' [O_RDONLY, O_CLOEXEC, O_DIRECTORY, O_NOFOLLOW]")
    case (Inl e)
    then show ?thesis using assms False by (auto simp: open_safely_def returns_fd_def)
  next
    case (Inr root)
    show ?thesis
    proof (cases "strtok_all ''/'' path")
      case Nil
      then show ?thesis using assms False Inr by (auto simp: open_safely_def returns_fd_def)
    next
      case (Cons p cs)
      obtain res1 tr1 where w: "walk os root p cs = (res1, tr1)" by (cases "walk os root p cs")
      have tr: "tr = [Acquire RPathCopy, Acquire (RFd root)] @ tr1 @ [Release RPathCopy]"
        and res: "res = res1"
        using assms False Inr Cons w by (auto simp: open_safely_def)
      have 1: "held r [Acquire RPathCopy, Acquire (RFd root)] n
          = Some ((n + of_bool (r = RPathCopy)) + of_bool (r = RFd root))"
        by auto
      have 2: "held r tr1 ((n + of_bool (r = RPathCopy)) + of_bool (r = RFd root))
          = Some ((n + of_bool (r = RPathCopy)) + of_bool (returns_fd res1 r))"
        using walk_held [OF w] .
      have 3: "held r [Release RPathCopy] ((n + of_bool (r = RPathCopy)) + of_bool (returns_fd res1 r))
          = Some (n + of_bool (returns_fd res1 r))"
        by (auto simp: returns_fd_def split: sum.splits option.splits)
      show ?thesis unfolding tr res
        by (simp only: held_append_Some [OF 1] held_append_Some [OF 2] 3)
    qed
  qed
qed

lemma slurp_held:
  assumes "slurp os fd k = (res, tr)"
  shows "held r tr n = Some (n + of_bool (r = RFileBuffer \<and> \<not> isl res))"
proof (cases "slurp_loop os fd k []")
  case (Inl a)
  have "slurp os fd k =
     (if k > cfg_max_file_size os then (Inl PAM_SERVICE_ERR, [])
      else if \<not> sys_malloc os (k + 1) then (Inl PAM_BUF_ERR, [])
      else (Inl a, [Acquire RFileBuffer, Release RFileBuffer]))"
    by (simp add: slurp_def Inl)
  then have "(isl res \<and> tr = [Acquire RFileBuffer, Release RFileBuffer]) \<or> (isl res \<and> tr = [])"
    using assms by (auto split: if_splits)
  then show ?thesis by auto
next
  case (Inr w)
  have "slurp os fd k =
     (if k > cfg_max_file_size os then (Inl PAM_SERVICE_ERR, [])
      else if \<not> sys_malloc os (k + 1) then (Inl PAM_BUF_ERR, [])
      else (Inr w, [Acquire RFileBuffer]))"
    by (simp add: slurp_def Inr)
  then have "(\<not> isl res \<and> tr = [Acquire RFileBuffer]) \<or> (isl res \<and> tr = [])"
    using assms by (auto split: if_splits)
  then show ?thesis by auto
qed


lemma arg_value_debug_file:
  "arg_value ''debug_file='' a
     = (if strncmp0 a ''debug_file='' 11 then Some (drop 11 a) else None)"
proof -
  have l: "length ''debug_file='' = 11" by simp
  show ?thesis unfolding arg_value_def l by (simp add: strncmp0_def)
qed

lemma cfg_load_arg_sink:
  "debug_file (fst (cfg_load_arg os c a))
     = (if strncmp0 a ''debug_file='' 11 then debug_open os (drop 11 a) else debug_file c)"
  by (simp add: step_debug_file arg_value_debug_file pick_def)

lemma cfg_load_arg_trace:
  "snd (cfg_load_arg os c a)
     = (if strncmp0 a ''debug_file='' 11
        then [Release (RSink (debug_file c)), Acquire (RSink (debug_open os (drop 11 a)))]
        else [])"
proof (cases a rule: arg_class)
  case flag
  then show ?thesis unfolding flag_tokens_def
    by (auto simp: cfg_load_arg_branches strncmp0_def)
next
  case (kv k v)
  then show ?thesis unfolding value_keys_def
    by (auto simp: cfg_load_arg_branches strncmp0_def split: option.splits)
next
  case other
  then show ?thesis
    using unrecognized_value [OF other, of "''debug_file=''"]
    by (simp add: cfg_load_arg_unrecognized arg_value_debug_file value_keys_def
        split: if_splits)
qed

lemma sink_step:
  assumes "t = (if P then [Release (RSink (debug_file c)), Acquire (RSink h)] else [])"
    and "debug_file c' = (if P then h else debug_file c)"
    and "accounts_for c (RSink s) n"
  shows "\<exists>n'. held (RSink s) t n = Some n' \<and> accounts_for c' (RSink s) n'"
  using assms by (auto simp: accounts_for_def split: if_splits)

lemma other_step:
  assumes "t = (if P then [Release (RSink s), Acquire (RSink h)] else [])"
    and "\<forall>s. r \<noteq> RSink s"
  shows "held r t n = Some n"
  using assms by auto

lemma cfg_load_arg_accounts:
  assumes "cfg_load_arg os c a = (c', t)" "accounts_for c (RSink s) n"
  shows "\<exists>n'. held (RSink s) t n = Some n' \<and> accounts_for c' (RSink s) n'"
  using sink_step [OF _ _ assms(2), of t "strncmp0 a ''debug_file='' 11"
      "debug_open os (drop 11 a)" c']
    cfg_load_arg_trace [of os c a] cfg_load_arg_sink [of os c a] assms(1)
  by simp

lemma cfg_load_arg_other:
  assumes "cfg_load_arg os c a = (c', t)" "\<forall>s. r \<noteq> RSink s"
  shows "held r t n = Some n"
  using other_step [OF _ assms(2), of t "strncmp0 a ''debug_file='' 11" "debug_file c"
      "debug_open os (drop 11 a)" n]
    cfg_load_arg_trace [of os c a] assms(1)
  by simp

lemma cfg_load_arg_debug_accounts:
  assumes "cfg_load_arg_debug os c a = (c', t)" "accounts_for c (RSink s) n"
  shows "\<exists>n'. held (RSink s) t n = Some n' \<and> accounts_for c' (RSink s) n'"
proof (rule sink_step [OF _ _ assms(2)])
  show "t = (if a \<noteq> ''debug'' \<and> strncmp0 a ''debug_file='' 11
             then [Release (RSink (debug_file c)), Acquire (RSink (debug_open os (drop 11 a)))]
             else [])"
    using assms(1) by (auto simp: cfg_load_arg_debug_def split: if_splits)
  show "debug_file c' = (if a \<noteq> ''debug'' \<and> strncmp0 a ''debug_file='' 11
             then debug_open os (drop 11 a) else debug_file c)"
    using assms(1) by (auto simp: cfg_load_arg_debug_def split: if_splits)
qed

lemma cfg_load_arg_debug_other:
  assumes "cfg_load_arg_debug os c a = (c', t)" "\<forall>s. r \<noteq> RSink s"
  shows "held r t n = Some n \<and> defaults_buffer c' = defaults_buffer c"
  using assms by (auto simp: cfg_load_arg_debug_def split: if_splits)

lemma apply_tokens_accounts:
  "apply_tokens os c toks = (c', t) \<Longrightarrow> accounts_for c (RSink s) n \<Longrightarrow>
   \<exists>n'. held (RSink s) t n = Some n' \<and> accounts_for c' (RSink s) n'"
proof (induction toks arbitrary: c c' t n)
  case Nil
  then show ?case by simp
next
  case (Cons a toks)
  obtain c1 t1 where 1: "cfg_load_arg os c a = (c1, t1)" by (cases "cfg_load_arg os c a")
  obtain c2 t2 where 2: "apply_tokens os c1 toks = (c2, t2)"
    by (cases "apply_tokens os c1 toks")
  have t: "t = t1 @ t2" and c': "c' = c2" using Cons.prems(1) 1 2 by simp_all
  obtain n1 where n1: "held (RSink s) t1 n = Some n1" "accounts_for c1 (RSink s) n1"
    using cfg_load_arg_accounts [OF 1 Cons.prems(2)] by blast
  obtain n2 where n2: "held (RSink s) t2 n1 = Some n2" "accounts_for c2 (RSink s) n2"
    using Cons.IH [OF 2 n1(2)] by blast
  show ?case unfolding t c' using n1 n2 by (simp add: held_append)
qed

lemma apply_tokens_other:
  "apply_tokens os c toks = (c', t) \<Longrightarrow> \<forall>s. r \<noteq> RSink s \<Longrightarrow> held r t n = Some n"
proof (induction toks arbitrary: c c' t)
  case Nil
  then show ?case by simp
next
  case (Cons a toks)
  obtain c1 t1 where 1: "cfg_load_arg os c a = (c1, t1)" by (cases "cfg_load_arg os c a")
  obtain c2 t2 where 2: "apply_tokens os c1 toks = (c2, t2)"
    by (cases "apply_tokens os c1 toks")
  have t: "t = t1 @ t2" using Cons.prems(1) 1 2 by simp
  show ?case unfolding t
    using cfg_load_arg_other [OF 1 Cons.prems(2)] Cons.IH [OF 2 Cons.prems(2)]
    by (simp add: held_append)
qed

lemma early_scan_accounts:
  "early_scan os c cp argv = ((c', cp'), t) \<Longrightarrow> accounts_for c (RSink s) n \<Longrightarrow>
   \<exists>n'. held (RSink s) t n = Some n' \<and> accounts_for c' (RSink s) n'"
proof (induction argv arbitrary: c cp c' t n)
  case Nil
  then show ?case by simp
next
  case (Cons a as)
  show ?case
  proof (cases "strncmp0 a ''conf='' 5")
    case True
    then show ?thesis using Cons.IH [of c "Some (drop 5 a)" c' t n] Cons.prems by simp
  next
    case False
    obtain c1 t1 where 1: "cfg_load_arg_debug os c a = (c1, t1)"
      by (cases "cfg_load_arg_debug os c a")
    obtain r2 t2 where 2: "early_scan os c1 cp as = (r2, t2)"
      by (cases "early_scan os c1 cp as")
    have t: "t = t1 @ t2" and r2: "r2 = (c', cp')" using Cons.prems(1) False 1 2 by simp_all
    obtain n1 where n1: "held (RSink s) t1 n = Some n1" "accounts_for c1 (RSink s) n1"
      using cfg_load_arg_debug_accounts [OF 1 Cons.prems(2)] by blast
    obtain n2 where n2: "held (RSink s) t2 n1 = Some n2" "accounts_for c' (RSink s) n2"
      using Cons.IH [OF 2 [unfolded r2] n1(2)] by blast
    show ?thesis unfolding t using n1 n2 by (simp add: held_append)
  qed
qed

lemma early_scan_other:
  "early_scan os c cp argv = ((c', cp'), t) \<Longrightarrow> \<forall>s. r \<noteq> RSink s \<Longrightarrow>
   held r t n = Some n \<and> defaults_buffer c' = defaults_buffer c"
proof (induction argv arbitrary: c cp c' t)
  case Nil
  then show ?case by simp
next
  case (Cons a as)
  show ?case
  proof (cases "strncmp0 a ''conf='' 5")
    case True
    then show ?thesis using Cons.IH [of c "Some (drop 5 a)" c' t] Cons.prems by simp
  next
    case False
    obtain c1 t1 where 1: "cfg_load_arg_debug os c a = (c1, t1)"
      by (cases "cfg_load_arg_debug os c a")
    obtain r2 t2 where 2: "early_scan os c1 cp as = (r2, t2)"
      by (cases "early_scan os c1 cp as")
    have t: "t = t1 @ t2" and r2: "r2 = (c', cp')" using Cons.prems(1) False 1 2 by simp_all
    show ?thesis unfolding t
      using cfg_load_arg_debug_other [OF 1 Cons.prems(2)]
        Cons.IH [OF 2 [unfolded r2] Cons.prems(2)]
      by (simp add: held_append)
  qed
qed


lemma cfg_load_defaults_held:
  assumes d: "cfg_load_defaults os c cp = ((rc, c'), t)"
    and a: "accounts_for c r n" and b: "defaults_buffer c = None"
  shows "(\<exists>n'. held r t n = Some n' \<and> accounts_for c' r n') \<and> (rc \<noteq> PAM_SUCCESS \<longrightarrow> c' = c)"
proof -
  let ?path = "case cp of Some p \<Rightarrow> p | None \<Rightarrow> cfg_default_path os"
  obtain res tr where o: "open_safely os ?path = (res, tr)" by (cases "open_safely os ?path")
  have h1: "held r tr n = Some (n + of_bool (returns_fd res r))"
    using open_safely_held [OF o] .
  show ?thesis
  proof (cases res)
    case (Inl e)
    then show ?thesis using o d a h1 by (auto simp: cfg_load_defaults_def returns_fd_def)
  next
    case (Inr x)
    obtain ofd fsize where x: "x = (ofd, fsize)" by (cases x)
    show ?thesis
    proof (cases ofd)
      case None
      then show ?thesis using o d a h1 Inr x
        by (auto simp: cfg_load_defaults_def returns_fd_def)
    next
      case (Some fd)
      have h1': "held r tr n = Some (n + of_bool (r = RFd fd))"
        using h1 Inr x Some by (simp add: returns_fd_def)
      have n0: "r = RFd fd \<Longrightarrow> n = 0" using a by (simp add: accounts_for_def)
      show ?thesis
      proof (cases "fsize = 0")
        case True
        then have "c' = c" "t = tr @ [Release (RFd fd)]"
          using o d Inr x Some by (auto simp: cfg_load_defaults_def)
        then show ?thesis using a h1' n0 by (auto simp: held_append)
      next
        case False
        obtain sres tr2 where sl: "slurp os fd fsize = (sres, tr2)" by (cases "slurp os fd fsize")
        have h2: "held r tr2 m = Some (m + of_bool (r = RFileBuffer \<and> \<not> isl sres))" for m
          using slurp_held [OF sl] .
        show ?thesis
        proof (cases sres)
          case (Inl e)
          then have "c' = c" "t = tr @ tr2 @ [Release (RFd fd)]" "rc = e"
            using o d \<open>res = Inr x\<close> x Some False sl by (auto simp: cfg_load_defaults_def)
          then show ?thesis using a h1' h2 n0 Inl by (auto simp: held_append)
        next
          case (Inr buffer)
          obtain c1 tr3 where lb: "cfg_load_buffer os c buffer = (c1, tr3)"
            by (cases "cfg_load_buffer os c buffer")
          have ap: "apply_tokens os c (file_tokens buffer) = (c1, tr3)"
            using lb by (simp add: cfg_load_buffer_tokens)
          have c': "c' = c1\<lparr>defaults_buffer := Some buffer\<rparr>"
            and t: "t = tr @ tr2 @ tr3 @ [Release (RFd fd)]" and rc: "rc = PAM_SUCCESS"
            using o d \<open>res = Inr x\<close> x Some False sl Inr lb
            by (auto simp: cfg_load_defaults_def)
          show ?thesis
          proof (cases "\<exists>s. r = RSink s")
            case True
            then obtain s where r: "r = RSink s" by blast
            obtain n' where n': "held (RSink s) tr3 n = Some n'" "accounts_for c1 (RSink s) n'"
              using apply_tokens_accounts [OF ap a [unfolded r]] by blast
            have "accounts_for c' (RSink s) n'" using n'(2) by (simp add: c' accounts_for_def)
            then show ?thesis using h1' h2 n'(1) r rc by (auto simp: t held_append)
          next
            case False
            then have h3: "held r tr3 m = Some m" for m
              using apply_tokens_other [OF ap] by blast
            have n: "n = 0" using a b False by (cases r) (auto simp: accounts_for_def)
            show ?thesis using h1' h2 h3 rc Inr n False
              by (cases r) (auto simp: t held_append c' accounts_for_def)
          qed
        qed
      qed
    qed
  qed
qed

lemma cfg_free_held:
  assumes "accounts_for c r n"
  shows "held r (snd (cfg_free os c)) n = Some 0"
  using assms by (cases r) (auto simp: cfg_free_def accounts_for_def split: option.splits)

lemma accounts_for_reset: "accounts_for (cfg_reset c0) r 0"
  by (cases r) (auto simp: accounts_for_def cfg_reset_def)

lemma full_scan_accounts:
  assumes "full_scan os c argv = (c', t)" "accounts_for c r n"
  shows "\<exists>n'. held r t n = Some n' \<and> accounts_for c' r n'"
proof (cases "\<exists>s. r = RSink s")
  case True
  then show ?thesis
    using apply_tokens_accounts [OF assms(1) [unfolded full_scan_tokens]] assms(2) by blast
next
  case False
  have "held r t n = Some n"
    using apply_tokens_other [OF assms(1) [unfolded full_scan_tokens]] False by blast
  moreover have "defaults_buffer c' = defaults_buffer c"
    using tokens_defaults_buffer [of os c "filter (\<lambda>a. \<not> strncmp0 a ''conf='' 5) argv"]
      assms(1) [unfolded full_scan_tokens]
    by simp
  ultimately show ?thesis using assms(2) False by (cases r) (auto simp: accounts_for_def)
qed

lemma early_scan_accounts_all:
  assumes "early_scan os (cfg_reset c0) None argv = ((c1, cp), t)"
  shows "(\<exists>n. held r t 0 = Some n \<and> accounts_for c1 r n) \<and> defaults_buffer c1 = None"
proof (cases "\<exists>s. r = RSink s")
  case True
  then obtain s where r: "r = RSink s" by blast
  have "defaults_buffer c1 = None"
    using early_scan_other [OF assms, of RPathCopy] by (simp add: cfg_reset_def)
  then show ?thesis using early_scan_accounts [OF assms accounts_for_reset [of c0 "RSink s"]] r
    by simp
next
  case False
  then have "held r t 0 = Some 0 \<and> defaults_buffer c1 = None"
    using early_scan_other [OF assms, of r 0] by (simp add: cfg_reset_def)
  then show ?thesis using False by (cases r) (auto simp: accounts_for_def)
qed

lemma cfg_init_held:
  assumes "cfg_init os c0 argv = ((rc, c), t)"
  shows "if rc = PAM_SUCCESS then \<exists>n. held r t 0 = Some n \<and> accounts_for c r n
         else held r t 0 = Some 0 \<and> c = cfg_reset c0"
proof -
  obtain c1 cp t1 where e: "early_scan os (cfg_reset c0) None argv = ((c1, cp), t1)"
    by (metis surj_pair)
  obtain r2 c2 t2 where d: "cfg_load_defaults os c1 cp = ((r2, c2), t2)"
    by (metis surj_pair)
  obtain n1 where n1: "held r t1 0 = Some n1" "accounts_for c1 r n1" and b: "defaults_buffer c1 = None"
    using early_scan_accounts_all [OF e] by blast
  obtain n2 where n2: "held r t2 n1 = Some n2" "accounts_for c2 r n2"
    and same: "r2 \<noteq> PAM_SUCCESS \<longrightarrow> c2 = c1"
    using cfg_load_defaults_held [OF d n1(2) b] by blast
  show ?thesis
  proof (cases "r2 = PAM_SUCCESS")
    case True
    obtain c3 t3 where f: "full_scan os c2 argv = (c3, t3)" by (cases "full_scan os c2 argv")
    obtain n3 where n3: "held r t3 n2 = Some n3" "accounts_for c3 r n3"
      using full_scan_accounts [OF f n2(2)] by blast
    have "rc = PAM_SUCCESS" "c = c3"
      "t = t1 @ t2 @ t3 @ (if debug c3 \<noteq> 0 then [Dump (debug_file c3)] else [])"
      using assms e d f True by (auto simp: cfg_init_def Let_def)
    then show ?thesis using n1 n2 n3 by (auto simp: held_append)
  next
    case False
    have "rc = r2" "c = cfg_reset c2"
      "t = t1 @ t2 @ (if debug c2 \<noteq> 0 then [Dump (debug_file c2)] else []) @ snd (cfg_free os c2)"
      using assms e d False by (auto simp: cfg_init_def Let_def cfg_free_def)
    then show ?thesis using n1 n2 False cfg_free_held [OF n2(2), of os]
      by (auto simp: held_append cfg_reset_def)
  qed
qed

text \<open>
  Claim C4. When \<open>cfg_init\<close> fails, the record it leaves is the reset record, and along
  its effects no resource (sink, file buffer, descriptor, copy of the path) is released
  while not held and none is still held at the end. \<open>cfg_free\<close> closes the sink of the
  record, frees its file buffer when it has one, and leaves the reset record: default
  sink, no buffer, the tri-state fields at -1, the rest zero. It is idempotent: on a
  released record it returns the same record, and only calls \<^verbatim>\<open>debug_close\<close> on the
  default sink. After \<open>cfg_init\<close>, failed or not, \<open>cfg_free\<close> can be called, and called
  again: nothing is released twice and nothing stays held.
\<close>

theorem failed_load_releases_resources:
  "(fst (fst (cfg_init os c0 argv)) \<noteq> PAM_SUCCESS
      \<longrightarrow> snd (fst (cfg_init os c0 argv)) = cfg_reset c0
          \<and> held r (snd (cfg_init os c0 argv)) 0 = Some 0)
   \<and> fst (cfg_free os c) = cfg_reset c
   \<and> snd (cfg_free os c)
       = Release (RSink (debug_file c))
           # (case defaults_buffer c of None \<Rightarrow> [] | Some b \<Rightarrow> [Release RFileBuffer])
   \<and> debug_file (cfg_reset c) = DEFAULT_DEBUG_FILE \<and> defaults_buffer (cfg_reset c) = None
   \<and> userpresence (cfg_reset c) = - 1 \<and> userverification (cfg_reset c) = - 1
   \<and> pinverification (cfg_reset c) = - 1 \<and> max_devs (cfg_reset c) = 0
   \<and> cfg_free os (fst (cfg_free os c))
       = (fst (cfg_free os c), [Release (RSink DEFAULT_DEBUG_FILE)])
   \<and> held r (snd (cfg_init os c0 argv)
              @ snd (cfg_free os (snd (fst (cfg_init os c0 argv))))
              @ snd (cfg_free os (fst (cfg_free os (snd (fst (cfg_init os c0 argv)))))))
        0 = Some 0"
proof -
  obtain rc c1 t where i: "cfg_init os c0 argv = ((rc, c1), t)" by (metis surj_pair)
  have h: "if rc = PAM_SUCCESS then \<exists>n. held r t 0 = Some n \<and> accounts_for c1 r n
         else held r t 0 = Some 0 \<and> c1 = cfg_reset c0"
    using cfg_init_held [OF i] .
  have 1: "rc \<noteq> PAM_SUCCESS \<longrightarrow> c1 = cfg_reset c0 \<and> held r t 0 = Some 0"
    using h by (simp split: if_splits)
  have f2: "cfg_free os (fst (cfg_free os c)) = (fst (cfg_free os c), [Release (RSink DEFAULT_DEBUG_FILE)])"
    for c
    by (simp add: cfg_free_def cfg_reset_def)
  obtain n where n: "held r t 0 = Some n" "accounts_for c1 r n"
    using h accounts_for_reset [of c0 r] by (auto split: if_splits)
  have "held r (t @ snd (cfg_free os c1)) 0 = Some 0"
    using n cfg_free_held [OF n(2), of os] by (simp add: held_append)
  then have 2: "held r (t @ snd (cfg_free os c1) @ snd (cfg_free os (fst (cfg_free os c1)))) 0
      = Some 0"
    using held_append_Some [of r "t @ snd (cfg_free os c1)" 0 0
        "snd (cfg_free os (fst (cfg_free os c1)))"]
    by (simp add: f2)
  show ?thesis using 1 2 f2 [of c] by (simp add: i cfg_free_def cfg_reset_def)
qed

lemma example_failed_load:
  "fst (cfg_init (os_example 0x41ED 0x41FD (Some ''cue'')) cfg_stale [''debug_file=/tmp/log''])
     = (PAM_SERVICE_ERR, cfg_reset cfg_stale)"
  by code_simp

theorem failed_load_releases_resources_witness:
  "fst (fst (cfg_init (os_example 0x41ED 0x41FD (Some ''cue'')) cfg_stale
          [''debug_file=/tmp/log''])) \<noteq> PAM_SUCCESS
   \<and> held (RSink (Handle 8))
        (snd (cfg_init (os_example 0x41ED 0x41FD (Some ''cue'')) cfg_stale
           [''debug_file=/tmp/log''])) 0 = Some 0"
proof -
  have 1: "fst (fst (cfg_init (os_example 0x41ED 0x41FD (Some ''cue'')) cfg_stale
          [''debug_file=/tmp/log''])) \<noteq> PAM_SUCCESS"
    by (simp add: example_failed_load)
  show ?thesis
    using failed_load_releases_resources [where os = "os_example 0x41ED 0x41FD (Some ''cue'')"
        and ?c0.0 = cfg_stale and argv = "[''debug_file=/tmp/log'']" and r = "RSink (Handle 8)"] 1
    by blast
qed

subsection \<open>The debug sink\<close>

text \<open>
  Claim C8, as stated, fails for a \<^verbatim>\<open>debug_file=\<close> argument: \<open>cfg_init\<close> applies it in
  the first loop and again in the second. With the one argument
  \<^verbatim>\<open>debug_file=/tmp/log\<close> and no configuration file, the sink is opened twice.
\<close>

theorem argument_sink_opened_twice:
  "snd (cfg_init (os_example 0x41ED 0x41ED None) cfg_stale [''debug_file=/tmp/log''])
     = [Release (RSink DEFAULT_DEBUG_FILE), Acquire (RSink (Handle 8)),
        Acquire RPathCopy, Acquire (RFd 3), Acquire (RFd 4), Release (RFd 3),
        Release (RFd 4), Release RPathCopy,
        Release (RSink (Handle 8)), Acquire (RSink (Handle 8))]"
  by code_simp

lemma sink_opens_append: "sink_opens (a @ b) = sink_opens a + sink_opens b"
  by (simp add: sink_opens_def)

lemma sink_opens_Nil: "sink_opens [] = 0"
  by (simp add: sink_opens_def)

lemma sink_opens_Cons:
  "sink_opens (e # t)
     = (case e of Acquire (RSink s) \<Rightarrow> 1 | _ \<Rightarrow> 0) + sink_opens t"
  by (simp add: sink_opens_def split: event.splits resource.splits)

lemma walk_sink_opens: "walk os parent p cs = (res, tr) \<Longrightarrow> sink_opens tr = 0"
proof (induction cs arbitrary: parent p res tr)
  case Nil
  then show ?case
    by (auto simp: open_leaf_def sink_opens_Nil sink_opens_Cons
        split: sum.splits option.splits if_splits)
next
  case (Cons c cs)
  show ?case using Cons.prems
    by (auto simp: sink_opens_Nil sink_opens_Cons
        split: sum.splits option.splits if_splits prod.splits dest: Cons.IH)
qed

lemma open_safely_sink_opens: "open_safely os path = (res, tr) \<Longrightarrow> sink_opens tr = 0"
  by (auto simp: open_safely_def sink_opens_append sink_opens_Nil sink_opens_Cons
      split: sum.splits list.splits if_splits prod.splits dest: walk_sink_opens)

lemma slurp_sink_opens: "slurp os fd k = (res, tr) \<Longrightarrow> sink_opens tr = 0"
  by (auto simp: slurp_def sink_opens_def split: if_splits sum.splits)

lemma cfg_load_arg_sink_opens:
  "sink_opens (snd (cfg_load_arg os c a)) = (if strncmp0 a ''debug_file='' 11 then 1 else 0)"
  by (simp add: cfg_load_arg_trace sink_opens_def)

lemma apply_tokens_sink_opens:
  "sink_opens (snd (apply_tokens os c toks)) = debug_file_tokens toks"
proof (induction toks arbitrary: c)
  case Nil
  then show ?case by (simp add: sink_opens_def debug_file_tokens_def)
next
  case (Cons a toks)
  obtain c1 t1 where 1: "cfg_load_arg os c a = (c1, t1)" by (cases "cfg_load_arg os c a")
  obtain c2 t2 where 2: "apply_tokens os c1 toks = (c2, t2)"
    by (cases "apply_tokens os c1 toks")
  show ?case using Cons [of c1] cfg_load_arg_sink_opens [of os c a] 1 2
    by (simp add: sink_opens_append debug_file_tokens_def)
qed

lemma conf_not_debug_file:
  assumes "strncmp0 a ''conf='' 5"
  shows "\<not> strncmp0 a ''debug_file='' 11"
proof -
  from assms have "take 5 a = ''conf=''" by (simp add: strncmp0_def)
  then obtain v where v: "a = ''conf='' @ v" using prefixD by blast
  show ?thesis unfolding v by (simp add: strncmp0_def)
qed

lemma cfg_load_arg_debug_sink_opens:
  "sink_opens (snd (cfg_load_arg_debug os c a)) = (if strncmp0 a ''debug_file='' 11 then 1 else 0)"
proof (cases "strncmp0 a ''debug_file='' 11")
  case True
  then have "take 11 a = ''debug_file=''" by (simp add: strncmp0_def)
  then obtain v where v: "a = ''debug_file='' @ v" using prefixD by blast
  show ?thesis unfolding v by (simp add: cfg_load_arg_debug_def strncmp0_def sink_opens_def)
next
  case False
  then show ?thesis by (simp add: cfg_load_arg_debug_def sink_opens_def)
qed

lemma early_scan_sink_opens:
  "sink_opens (snd (early_scan os c cp argv)) = debug_file_tokens argv"
proof (induction argv arbitrary: c cp)
  case Nil
  then show ?case by (simp add: sink_opens_def debug_file_tokens_def)
next
  case (Cons a as)
  show ?case
  proof (cases "strncmp0 a ''conf='' 5")
    case True
    then show ?thesis using Cons [of c "Some (drop 5 a)"] conf_not_debug_file [OF True]
      by (simp add: debug_file_tokens_def)
  next
    case False
    obtain c1 t1 where 1: "cfg_load_arg_debug os c a = (c1, t1)"
      by (cases "cfg_load_arg_debug os c a")
    obtain r2 t2 where 2: "early_scan os c1 cp as = (r2, t2)"
      by (cases "early_scan os c1 cp as")
    show ?thesis using False Cons [of c1 cp] cfg_load_arg_debug_sink_opens [of os c a] 1 2
      by (simp add: sink_opens_append debug_file_tokens_def)
  qed
qed

lemma debug_file_tokens_conf:
  "debug_file_tokens (filter (\<lambda>a. \<not> strncmp0 a ''conf='' 5) argv) = debug_file_tokens argv"
proof -
  have "(\<not> strncmp0 a ''conf='' 5 \<and> strncmp0 a ''debug_file='' 11)
      = strncmp0 a ''debug_file='' 11" for a
    using conf_not_debug_file by blast
  then show ?thesis by (simp add: debug_file_tokens_def conj_commute)
qed

lemma cfg_load_defaults_sink_opens:
  assumes d: "cfg_load_defaults os c cp = ((rc, c'), t)" and b: "defaults_buffer c = None"
  shows "sink_opens t = debug_file_tokens (buffer_tokens (defaults_buffer c'))"
proof -
  let ?path = "case cp of Some p \<Rightarrow> p | None \<Rightarrow> cfg_default_path os"
  obtain res tr where o: "open_safely os ?path = (res, tr)" by (cases "open_safely os ?path")
  have h1: "sink_opens tr = 0" using open_safely_sink_opens [OF o] .
  have z: "debug_file_tokens (buffer_tokens (defaults_buffer c)) = 0"
    by (simp add: b buffer_tokens_def debug_file_tokens_def)
  have r: "sink_opens [Release (RFd fd)] = 0" for fd by (simp add: sink_opens_def)
  show ?thesis
  proof (cases res)
    case (Inl e)
    then show ?thesis using o d h1 z by (auto simp: cfg_load_defaults_def)
  next
    case (Inr x)
    obtain ofd fsize where x: "x = (ofd, fsize)" by (cases x)
    show ?thesis
    proof (cases ofd)
      case None
      then show ?thesis using o d h1 z Inr x by (auto simp: cfg_load_defaults_def)
    next
      case (Some fd)
      show ?thesis
      proof (cases "fsize = 0")
        case True
        then have "c' = c" "t = tr @ [Release (RFd fd)]"
          using o d Inr x Some by (auto simp: cfg_load_defaults_def)
        then show ?thesis using h1 z r by (simp add: sink_opens_append)
      next
        case False
        obtain sres tr2 where sl: "slurp os fd fsize = (sres, tr2)" by (cases "slurp os fd fsize")
        have h2: "sink_opens tr2 = 0" using slurp_sink_opens [OF sl] .
        show ?thesis
        proof (cases sres)
          case (Inl e)
          then have "c' = c" "t = tr @ tr2 @ [Release (RFd fd)]"
            using o d \<open>res = Inr x\<close> x Some False sl by (auto simp: cfg_load_defaults_def)
          then show ?thesis using h1 h2 z r by (simp add: sink_opens_append)
        next
          case (Inr buffer)
          obtain c1 tr3 where lb: "cfg_load_buffer os c buffer = (c1, tr3)"
            by (cases "cfg_load_buffer os c buffer")
          have h3: "sink_opens tr3 = debug_file_tokens (file_tokens buffer)"
            using apply_tokens_sink_opens [of os c "file_tokens buffer"] lb
            by (simp add: cfg_load_buffer_tokens)
          have "c' = c1\<lparr>defaults_buffer := Some buffer\<rparr>"
            "t = tr @ tr2 @ tr3 @ [Release (RFd fd)]"
            using o d \<open>res = Inr x\<close> x Some False sl Inr lb
            by (auto simp: cfg_load_defaults_def)
          then show ?thesis using h1 h2 h3 r by (simp add: sink_opens_append buffer_tokens_def)
        qed
      qed
    qed
  qed
qed

lemma cfg_load_defaults_failed:
  assumes "cfg_load_defaults os c cp = ((rc, c'), t)" "rc \<noteq> PAM_SUCCESS"
  shows "c' = c"
  using assms by (cases rule: cfg_load_defaults_cases [of os c cp]) auto

lemma cfg_init_sink_opens:
  "sink_opens (snd (cfg_init os c0 argv))
     = (if fst (fst (cfg_init os c0 argv)) = PAM_SUCCESS
        then 2 * debug_file_tokens argv
             + debug_file_tokens (buffer_tokens (defaults_buffer (snd (fst (cfg_init os c0 argv)))))
        else debug_file_tokens argv)"
proof -
  obtain c1 cp t1 where e: "early_scan os (cfg_reset c0) None argv = ((c1, cp), t1)"
    by (metis surj_pair)
  obtain r2 c2 t2 where d: "cfg_load_defaults os c1 cp = ((r2, c2), t2)"
    by (metis surj_pair)
  have b: "defaults_buffer c1 = None"
    using early_scan_other [OF e, of RPathCopy] by (simp add: cfg_reset_def)
  have s1: "sink_opens t1 = debug_file_tokens argv"
    using early_scan_sink_opens [of os "cfg_reset c0" None argv] e by simp
  have s2: "sink_opens t2 = debug_file_tokens (buffer_tokens (defaults_buffer c2))"
    using cfg_load_defaults_sink_opens [OF d b] .
  have dump: "sink_opens (if debug x \<noteq> 0 then [Dump (debug_file x)] else []) = 0" for x :: cfg
    by (simp add: sink_opens_def)
  have free: "sink_opens (snd (cfg_free os x)) = 0" for x
    by (simp add: sink_opens_def cfg_free_def split: option.splits)
  show ?thesis
  proof (cases "r2 = PAM_SUCCESS")
    case True
    obtain c3 t3 where f: "full_scan os c2 argv = (c3, t3)" by (cases "full_scan os c2 argv")
    have s3: "sink_opens t3 = debug_file_tokens argv"
      using apply_tokens_sink_opens [of os c2 "filter (\<lambda>a. \<not> strncmp0 a ''conf='' 5) argv"] f
      by (simp add: full_scan_tokens debug_file_tokens_conf)
    have b3: "defaults_buffer c3 = defaults_buffer c2"
      using tokens_defaults_buffer [of os c2 "filter (\<lambda>a. \<not> strncmp0 a ''conf='' 5) argv"] f
      by (simp add: full_scan_tokens)
    have "cfg_init os c0 argv
        = ((PAM_SUCCESS, c3),
           t1 @ t2 @ t3 @ (if debug c3 \<noteq> 0 then [Dump (debug_file c3)] else []))"
      using e d f True by (simp add: cfg_init_def Let_def)
    then show ?thesis using s1 s2 s3 b3 dump [of c3] by (simp add: sink_opens_append)
  next
    case False
    have c2: "c2 = c1" using cfg_load_defaults_failed [OF d False] .
    have "cfg_init os c0 argv
        = ((r2, cfg_reset c2),
           t1 @ t2 @ (if debug c2 \<noteq> 0 then [Dump (debug_file c2)] else [])
             @ snd (cfg_free os c2))"
      using e d False by (simp add: cfg_init_def Let_def cfg_free_def)
    then show ?thesis using s1 s2 b dump [of c2] free [of c2] False
      by (simp add: sink_opens_append c2 buffer_tokens_def debug_file_tokens_def)
  qed
qed

text \<open>
  Claim C8, amended. The sink of a reset record is the default sink. Each application of
  a \<^verbatim>\<open>debug_file=\<close> token, by \<open>cfg_load_arg_debug\<close> or \<open>cfg_load_arg\<close>, closes the sink of
  the record and then opens the new one, once; no other token touches the sink. In
  \<open>cfg_init\<close> a \<^verbatim>\<open>debug_file=\<close> line of the file is applied once, and a
  \<^verbatim>\<open>debug_file=\<close> argument twice when the file phase succeeds and once when it fails.
\<close>

theorem debug_sink_replaced_per_application:
  "debug_file (cfg_reset c0) = DEFAULT_DEBUG_FILE
   \<and> (strncmp0 a ''debug_file='' 11 \<longrightarrow>
        cfg_load_arg_debug os c a
          = (c\<lparr>debug_file := debug_open os (drop 11 a)\<rparr>,
             [Release (RSink (debug_file c)), Acquire (RSink (debug_open os (drop 11 a)))])
        \<and> cfg_load_arg os c a = cfg_load_arg_debug os c a)
   \<and> (\<not> strncmp0 a ''debug_file='' 11 \<longrightarrow>
        debug_file (fst (cfg_load_arg os c a)) = debug_file c
        \<and> snd (cfg_load_arg os c a) = []
        \<and> debug_file (fst (cfg_load_arg_debug os c a)) = debug_file c
        \<and> snd (cfg_load_arg_debug os c a) = [])
   \<and> sink_opens (snd (cfg_init os c0 argv))
       = (if fst (fst (cfg_init os c0 argv)) = PAM_SUCCESS
          then 2 * debug_file_tokens argv
               + debug_file_tokens
                   (buffer_tokens (defaults_buffer (snd (fst (cfg_init os c0 argv)))))
          else debug_file_tokens argv)"
proof -
  have 1: "cfg_load_arg_debug os c a
          = (c\<lparr>debug_file := debug_open os (drop 11 a)\<rparr>,
             [Release (RSink (debug_file c)), Acquire (RSink (debug_open os (drop 11 a)))])"
    if p: "strncmp0 a ''debug_file='' 11"
  proof -
    from p have "take 11 a = ''debug_file=''" by (simp add: strncmp0_def)
    then obtain v where v: "a = ''debug_file='' @ v" using prefixD by blast
    show ?thesis unfolding v by (simp add: cfg_load_arg_debug_def strncmp0_def)
  qed
  have 2: "cfg_load_arg os c a = cfg_load_arg_debug os c a" if p: "strncmp0 a ''debug_file='' 11"
    using 1 [OF p] cfg_load_arg_debug_file [OF p, of os c] by simp
  have 3: "debug_file (fst (cfg_load_arg os c a)) = debug_file c
        \<and> snd (cfg_load_arg os c a) = []
        \<and> debug_file (fst (cfg_load_arg_debug os c a)) = debug_file c
        \<and> snd (cfg_load_arg_debug os c a) = []"
    if "\<not> strncmp0 a ''debug_file='' 11"
    using that by (simp add: cfg_load_arg_sink cfg_load_arg_trace cfg_load_arg_debug_def)
  show ?thesis using 1 2 3 cfg_init_sink_opens [of os c0 argv]
    by (simp add: cfg_reset_def)
qed

theorem debug_sink_replaced_per_application_witness:
  "sink_opens (snd (cfg_init (os_example 0x41ED 0x41ED (Some ''debug_file=/var/log/u2f''))
       cfg_stale [''debug_file=/tmp/log''])) = 3
   \<and> cfg_load_arg (os_example 0x41ED 0x41ED None) cfg_stale ''debug_file=/tmp/log''
       = (cfg_stale\<lparr>debug_file := Handle 8\<rparr>,
          [Release (RSink (Handle 9)), Acquire (RSink (Handle 8))])"
proof -
  let ?os = "os_example 0x41ED 0x41ED (Some ''debug_file=/var/log/u2f'')"
  have 1: "fst (cfg_init ?os cfg_stale [''debug_file=/tmp/log''])
      = (PAM_SUCCESS, (cfg_reset cfg_stale)\<lparr>debug_file := Handle 8,
            defaults_buffer := Some ''debug_file=/var/log/u2f''\<rparr>)"
    by code_simp
  have 2: "debug_file_tokens [''debug_file=/tmp/log''] = 1"
    by (simp add: debug_file_tokens_def strncmp0_def)
  have 3: "debug_file_tokens (buffer_tokens (Some ''debug_file=/var/log/u2f'')) = 1"
    by code_simp
  have 4: "strncmp0 ''debug_file=/tmp/log'' ''debug_file='' 11" by (simp add: strncmp0_def)
  have 5: "debug_open (os_example 0x41ED 0x41ED None) (drop 11 ''debug_file=/tmp/log'') = Handle 8"
    by (simp add: os_example_def)
  have 6: "debug_file cfg_stale = Handle 9" by (simp add: cfg_stale_def)
  show ?thesis
    using debug_sink_replaced_per_application [where os = ?os and ?c0.0 = cfg_stale
        and argv = "[''debug_file=/tmp/log'']"]
      debug_sink_replaced_per_application [where os = "os_example 0x41ED 0x41ED None"
        and c = cfg_stale and a = "''debug_file=/tmp/log''"]
      1 2 3 4 5 6
    by simp
qed

end
